theory Spec2Isabelle
  imports Complex_Main "HOL-Library.Word" "HOL-Library.Multiset"
begin

section \<open>Conventions of the embedding\<close>

text \<open>
  The model follows the Go sources \<^verbatim>\<open>ga/ga.go\<close>, \<^verbatim>\<open>internal/batching\<close> and
  \<^verbatim>\<open>neat/neat.go\<close>.

  \<^item> \<^verbatim>\<open>uint32\<close> and \<^verbatim>\<open>uint64\<close> are \<open>32 word\<close> and \<open>64 word\<close>: arithmetic wraps.
  \<^item> \<^verbatim>\<open>int\<close> is the 64-bit signed integer of the amd64 and arm64 ports: a \<open>64 word\<close>
    read with \<open>sint\<close> where the sign matters, and \<open>nat\<close> for a \<^verbatim>\<open>len\<close>.
  \<^item> \<^verbatim>\<open>float32\<close> and \<^verbatim>\<open>float64\<close> values are the exact rationals they stand for:
    rounding is not modelled. The one floating-point division whose divisor can be zero
    (the adjusted fitness of a network) is modelled with an explicit result for that case.
  \<^item> A panic is the \<open>Inl\<close> of a result; an operation that returns normally is an \<open>Inr\<close>.
  \<^item> Objects reached through pointers (\<^verbatim>\<open>*Network\<close>) live in an explicit heap, a list
    indexed by address, so that two pointers to one object are one address.
  \<^item> The goroutines of one phase are run one after the other, batch by batch and index by
    index, and the goroutines of the distance phase before those of the fitness phase
    (the source starts both before its first \<^verbatim>\<open>wg.Wait()\<close>): one of the schedules the
    \<^verbatim>\<open>WaitGroup\<close> allows.
  \<^item> The global random generator of \<^verbatim>\<open>math/rand/v2\<close> is a state that hands out the
    draws it holds, in order.
\<close>

datatype error =
    PopulationSizeZero
  | PopulationMismatch
  | IndexOutOfRange
  | IntegerDivideByZero
  | EmptyList
  | InvalidArgumentToIntN
  | AssignmentToEntryInNilMap
  | NilPointerDereference
  | IncorrectDataEntry

type_synonym float32 = rat
type_synonym float64 = rat

definition index :: "'a list \<Rightarrow> nat \<Rightarrow> error + 'a" where
  "index xs i = (if i < length xs then Inr (xs ! i) else Inl IndexOutOfRange)"

fun foldM :: "('a \<Rightarrow> 's \<Rightarrow> error + 's) \<Rightarrow> 'a list \<Rightarrow> 's \<Rightarrow> error + 's" where
  "foldM f [] s = Inr s"
| "foldM f (x # xs) s = (case f x s of Inl e \<Rightarrow> Inl e | Inr s' \<Rightarrow> foldM f xs s')"

section \<open>Package batching\<close>

record BatchInfo =
  Start :: "32 word"
  End :: "32 word"

text \<open>The body of \<^verbatim>\<open>for range nBatches\<close> in \<^verbatim>\<open>BuildBatchesList\<close>; the first argument
  counts the iterations that remain.\<close>

fun batches_loop ::
  "nat \<Rightarrow> 32 word \<Rightarrow> 32 word \<Rightarrow> 32 word \<Rightarrow> 32 word \<Rightarrow> BatchInfo list \<Rightarrow> BatchInfo list" where
  "batches_loop 0 nElements batchSize start e batches = batches"
| "batches_loop (Suc k) nElements batchSize start e batches =
     (let e1 = (if e > nElements then nElements else e)
      in batches_loop k nElements batchSize e1 (e1 + batchSize)
           (batches @ [\<lparr>Start = start, End = e1\<rparr>]))"

definition BuildBatchesList :: "32 word \<Rightarrow> 32 word \<Rightarrow> error + BatchInfo list" where
  "BuildBatchesList nElements nBatches =
     (if nElements = 0 then Inr []
      else if nBatches = 0 then Inl IntegerDivideByZero
      else
        let batchSize = nElements div nBatches;
            batches = batches_loop (unat nBatches) nElements batchSize 0 batchSize [];
            k = unat (nBatches - 1)
        in if k < length batches
           then (if End (batches ! k) \<noteq> nElements
                 then Inr (batches[k := (batches ! k)\<lparr>End := nElements\<rparr>])
                 else Inr batches)
           else Inl IndexOutOfRange)"

text \<open>The indices \<^verbatim>\<open>for i := b.Start; i < b.End; i++\<close> visits, and the same as a set.\<close>

definition batch_indices :: "BatchInfo \<Rightarrow> nat list" where
  "batch_indices b = [unat (Start b)..<unat (End b)]"

definition batch_range :: "BatchInfo \<Rightarrow> nat set" where
  "batch_range b = {unat (Start b)..<unat (End b)}"

section \<open>Package ga\<close>

record MemberData =
  FitnessScore :: "32 word"
  SurvivalChance :: float32

record SolverOptions =
  PopulationSize :: "32 word"
  MaxGenerations :: "32 word"
  MutationChance :: float32
  NBatches :: "32 word"
  Speciation :: bool
  Verbose :: bool

record 'm Solver =
  population :: "'m list"
  options :: SolverOptions
  generationNo :: "32 word"

text \<open>
  The \<^verbatim>\<open>Member\<close> interface. A member \<open>'m\<close> is whatever the population slice holds (a
  pointer, for the implementations of this repository); \<open>'w\<close> is the state the methods
  read and write: the objects behind the pointers, the package variables, the random
  generator. The getters and the setter return; the four methods that do work may panic.
  \<open>zeroValue\<close> is the zero value of \<^verbatim>\<open>M\<close>, which \<^verbatim>\<open>make([]M, n)\<close> fills a slice with.
\<close>

record ('m, 'w) Member =
  GetFitnessScore :: "'m \<Rightarrow> 'w \<Rightarrow> 32 word"
  GetSurvivalChance :: "'m \<Rightarrow> 'w \<Rightarrow> float32"
  SetSurvivalChance :: "'m \<Rightarrow> float32 \<Rightarrow> 'w \<Rightarrow> 'w"
  Distance :: "'m \<Rightarrow> 'm \<Rightarrow> 'w \<Rightarrow> error + 'w"
  ComputeAndSetFitnessScore :: "'m \<Rightarrow> 'w \<Rightarrow> error + 'w"
  Crossover :: "'m \<Rightarrow> 'm \<Rightarrow> 'w \<Rightarrow> error + ('m \<times> 'w)"
  Mutate :: "'m \<Rightarrow> 'w \<Rightarrow> error + 'w"
  zeroValue :: "'m"

definition NewSolver :: "'m list \<Rightarrow> SolverOptions \<Rightarrow> error + 'm Solver" where
  "NewSolver members opts =
     (if PopulationSize opts = 0 then Inl PopulationSizeZero
      else if (of_nat (length members) :: 32 word) \<noteq> PopulationSize opts then Inl PopulationMismatch
      else
        let opts1 = (if NBatches opts = 0 then opts\<lparr>NBatches := 1\<rparr> else opts);
            opts2 = (if NBatches opts1 > PopulationSize opts1
                     then opts1\<lparr>NBatches := PopulationSize opts1\<rparr> else opts1)
        in Inr \<lparr>population = members, options = opts2, generationNo = 1\<rparr>)"

text \<open>The scan of \<^verbatim>\<open>pickRandomMember\<close> over the population, and the method.
  \<open>rnd\<close> is \<^verbatim>\<open>rand.Float32\<close>.\<close>

fun pick_scan :: "('m, 'w) Member \<Rightarrow> 'w \<Rightarrow> float32 \<Rightarrow> 'm list \<Rightarrow> 'm option" where
  "pick_scan ops w randValue [] = None"
| "pick_scan ops w randValue (member # rest) =
     (let survivalChance = GetSurvivalChance ops member w
      in if randValue < survivalChance then Some member
         else pick_scan ops w (randValue - survivalChance) rest)"

definition pickRandomMember ::
  "('m, 'w) Member \<Rightarrow> ('w \<Rightarrow> float32 \<times> 'w) \<Rightarrow> 'm Solver \<Rightarrow> 'w \<Rightarrow> error + ('m \<times> 'w)" where
  "pickRandomMember ops rnd solver w =
     (case rnd w of (randValue, w1) \<Rightarrow>
        (case pick_scan ops w1 randValue (population solver) of
           Some member \<Rightarrow> Inr (member, w1)
         | None \<Rightarrow>
             (case index (population solver) (unat (PopulationSize (options solver) - 1)) of
                Inl e \<Rightarrow> Inl e
              | Inr member \<Rightarrow> Inr (member, w1))))"

text \<open>\<^verbatim>\<open>slices.MaxFunc\<close> of the Go library: the first element is the candidate, and a
  later element replaces it only when it compares strictly greater.\<close>

fun MaxFunc_loop :: "('a \<Rightarrow> 'a \<Rightarrow> int) \<Rightarrow> 'a \<Rightarrow> 'a list \<Rightarrow> 'a" where
  "MaxFunc_loop cmp m [] = m"
| "MaxFunc_loop cmp m (x # xs) = MaxFunc_loop cmp (if cmp x m > 0 then x else m) xs"

definition MaxFunc :: "'a list \<Rightarrow> ('a \<Rightarrow> 'a \<Rightarrow> int) \<Rightarrow> error + 'a" where
  "MaxFunc x cmp = (case x of [] \<Rightarrow> Inl EmptyList | m # xs \<Rightarrow> Inr (MaxFunc_loop cmp m xs))"

text \<open>The comparison of \<^verbatim>\<open>getBestMember\<close>: both scores are converted to \<^verbatim>\<open>int\<close> and
  subtracted there.\<close>

definition cmpFitness :: "('m, 'w) Member \<Rightarrow> 'w \<Rightarrow> 'm \<Rightarrow> 'm \<Rightarrow> int" where
  "cmpFitness ops w a b =
     sint ((ucast (GetFitnessScore ops a w) :: 64 word) - ucast (GetFitnessScore ops b w))"

definition getBestMember :: "('m, 'w) Member \<Rightarrow> 'm Solver \<Rightarrow> 'w \<Rightarrow> error + 'm" where
  "getBestMember ops solver w = MaxFunc (population solver) (cmpFitness ops w)"

text \<open>The three parallel phases of one generation and the serial one between them.\<close>

definition distance_phase ::
  "('m, 'w) Member \<Rightarrow> BatchInfo list \<Rightarrow> 'm list \<Rightarrow> 'w \<Rightarrow> error + 'w" where
  "distance_phase ops batches pop w =
     foldM (\<lambda>b. foldM (\<lambda>i. foldM (\<lambda>j w'.
              case index pop i of Inl e \<Rightarrow> Inl e
              | Inr mi \<Rightarrow> Distance ops mi (pop ! j) w') [0..<length pop])
            (batch_indices b))
       batches w"

definition fitness_step ::
  "('m, 'w) Member \<Rightarrow> 'm list \<Rightarrow> nat \<Rightarrow> 'w \<times> 32 word \<Rightarrow> error + ('w \<times> 32 word)" where
  "fitness_step ops pop i s =
     (case s of (w, fitnessSum) \<Rightarrow>
        (case index pop i of Inl e \<Rightarrow> Inl e
         | Inr m \<Rightarrow>
             (case ComputeAndSetFitnessScore ops m w of Inl e \<Rightarrow> Inl e
              | Inr w' \<Rightarrow> Inr (w', fitnessSum + GetFitnessScore ops m w'))))"

definition fitness_phase ::
  "('m, 'w) Member \<Rightarrow> BatchInfo list \<Rightarrow> 'm list \<Rightarrow> 'w \<Rightarrow> error + ('w \<times> 32 word)" where
  "fitness_phase ops batches pop w =
     foldM (\<lambda>b. foldM (fitness_step ops pop) (batch_indices b)) batches (w, 0)"

text \<open>The survival chance of one member. The divisor \<open>PopulationSize\<close> is not zero in a
  solver that \<^verbatim>\<open>NewSolver\<close> built.\<close>

definition survival_step ::
  "('m, 'w) Member \<Rightarrow> SolverOptions \<Rightarrow> 32 word \<Rightarrow> 'w \<Rightarrow> 'm \<Rightarrow> 'w" where
  "survival_step ops opts fitnessSum w m =
     (let fitnessScore = GetFitnessScore ops m w;
          survivalChance =
            (if fitnessSum \<noteq> 0
             then (of_nat (unat fitnessScore) :: float32) / of_nat (unat fitnessSum)
             else 1 / of_nat (unat (PopulationSize opts)))
      in SetSurvivalChance ops m survivalChance w)"

definition survival_phase ::
  "('m, 'w) Member \<Rightarrow> 'm Solver \<Rightarrow> 32 word \<Rightarrow> 'w \<Rightarrow> 'w" where
  "survival_phase ops solver fitnessSum w =
     foldl (survival_step ops (options solver) fitnessSum) w (population solver)"

definition breeding_step ::
  "('m, 'w) Member \<Rightarrow> ('w \<Rightarrow> float32 \<times> 'w) \<Rightarrow> 'm Solver \<Rightarrow> nat \<Rightarrow>
   'm list \<times> 'w \<Rightarrow> error + ('m list \<times> 'w)" where
  "breeding_step ops rnd solver i s =
     (case s of (nextPopulation, w) \<Rightarrow>
        (case pickRandomMember ops rnd solver w of Inl e \<Rightarrow> Inl e
         | Inr (parent1, w1) \<Rightarrow>
        (case pickRandomMember ops rnd solver w1 of Inl e \<Rightarrow> Inl e
         | Inr (parent2, w2) \<Rightarrow>
        (case Crossover ops parent1 parent2 w2 of Inl e \<Rightarrow> Inl e
         | Inr (child, w3) \<Rightarrow>
        (case rnd w3 of (r, w4) \<Rightarrow>
        (case (if r < MutationChance (options solver) then Mutate ops child w4 else Inr w4) of
           Inl e \<Rightarrow> Inl e
         | Inr w5 \<Rightarrow>
             if i < length nextPopulation then Inr (nextPopulation[i := child], w5)
             else Inl IndexOutOfRange))))))"

definition breeding_phase ::
  "('m, 'w) Member \<Rightarrow> ('w \<Rightarrow> float32 \<times> 'w) \<Rightarrow> BatchInfo list \<Rightarrow> 'm Solver \<Rightarrow> 'w \<Rightarrow>
   error + ('m list \<times> 'w)" where
  "breeding_phase ops rnd batches solver w =
     foldM (\<lambda>b. foldM (breeding_step ops rnd solver) (batch_indices b)) batches
       (replicate (unat (PopulationSize (options solver))) (zeroValue ops), w)"

text \<open>What a call of \<^verbatim>\<open>Solve\<close> leaves behind: the member it returns, the solver and the state
  at the return, and the number of times the body of its \<^verbatim>\<open>for\<close> loop was entered.\<close>

record ('m, 'w) outcome =
  best :: 'm
  final_solver :: "'m Solver"
  final_world :: 'w
  iterations :: nat

function Solve_loop ::
  "('m, 'w) Member \<Rightarrow> ('w \<Rightarrow> float32 \<times> 'w) \<Rightarrow> BatchInfo list \<Rightarrow> 'm Solver \<Rightarrow> 'w \<Rightarrow> nat \<Rightarrow>
   error + ('m, 'w) outcome" where
  "Solve_loop ops rnd batches solver w n =
     (case (if Speciation (options solver)
            then distance_phase ops batches (population solver) w else Inr w) of
        Inl e \<Rightarrow> Inl e
      | Inr w1 \<Rightarrow>
     (case fitness_phase ops batches (population solver) w1 of
        Inl e \<Rightarrow> Inl e
      | Inr (w2, fitnessSum) \<Rightarrow>
     (case (if Verbose (options solver) then getBestMember ops solver w2
            else Inr (zeroValue ops)) of
        Inl e \<Rightarrow> Inl e
      | Inr shown \<Rightarrow>
          if generationNo solver = MaxGenerations (options solver)
          then (case getBestMember ops solver w2 of
                  Inl e \<Rightarrow> Inl e
                | Inr bestMember \<Rightarrow>
                    Inr \<lparr>best = bestMember, final_solver = solver, final_world = w2,
                         iterations = Suc n\<rparr>)
          else
            (case breeding_phase ops rnd batches solver
                    (survival_phase ops solver fitnessSum w2) of
               Inl e \<Rightarrow> Inl e
             | Inr (nextPopulation, w4) \<Rightarrow>
                 Solve_loop ops rnd batches
                   (solver\<lparr>population := nextPopulation,
                           generationNo := generationNo solver + 1\<rparr>) w4 (Suc n)))))"
  by pat_completeness auto
termination
proof (relation "measure (\<lambda>(ops, rnd, batches, solver, w, n).
                   unat (MaxGenerations (options solver) - generationNo solver))")
  show "wf (measure (\<lambda>(ops :: ('m, 'w) Member, rnd :: 'w \<Rightarrow> float32 \<times> 'w, batches :: BatchInfo list,
                       solver :: 'm Solver, w :: 'w, n :: nat).
                   unat (MaxGenerations (options solver) - generationNo solver)))"
    by simp
next
  fix ops :: "('m, 'w) Member" and rnd :: "'w \<Rightarrow> float32 \<times> 'w" and batches :: "BatchInfo list"
    and solver :: "'m Solver" and w w4 :: 'w and n :: nat and nextPopulation :: "'m list"
  assume ne: "generationNo solver \<noteq> MaxGenerations (options solver)"
  let ?d = "MaxGenerations (options solver) - generationNo solver"
  have nz: "?d \<noteq> 0" using ne by simp
  have eq: "MaxGenerations (options solver) - (generationNo solver + 1) = ?d - 1" by simp
  have "unat (MaxGenerations (options solver) - (generationNo solver + 1)) < unat ?d"
    unfolding eq using nz by (simp add: unat_minus_one unat_gt_0)
  then show
    "((ops, rnd, batches,
       solver\<lparr>population := nextPopulation, generationNo := generationNo solver + 1\<rparr>, w4, Suc n),
      (ops, rnd, batches, solver, w, n))
     \<in> measure (\<lambda>(ops, rnd, batches, solver, w, n).
                   unat (MaxGenerations (options solver) - generationNo solver))"
    by simp
qed

definition Solve ::
  "('m, 'w) Member \<Rightarrow> ('w \<Rightarrow> float32 \<times> 'w) \<Rightarrow> 'm Solver \<Rightarrow> 'w \<Rightarrow> error + ('m, 'w) outcome" where
  "Solve ops rnd solver w =
     (case BuildBatchesList (PopulationSize (options solver)) (NBatches (options solver)) of
        Inl e \<Rightarrow> Inl e
      | Inr batches \<Rightarrow> Solve_loop ops rnd batches solver w 0)"

section \<open>A small member type\<close>

text \<open>
  A \<^verbatim>\<open>Member\<close> in the manner of \<^verbatim>\<open>examples/scheduling\<close>: a struct that embeds
  \<^verbatim>\<open>MemberData\<close> and carries its genes, here one number, which is the fitness the member
  computes for itself. The child of a crossover takes the genes of the fitter parent, as
  the example's does; a mutation changes the gene. Members are addresses into \<open>objects\<close>.
  It serves to run the solver on concrete populations.
\<close>

record gene_member = MemberData +
  gene :: "32 word"

record gene_world =
  objects :: "gene_member list"
  draws :: "rat list"

definition gene_draw :: "gene_world \<Rightarrow> float32 \<times> gene_world" where
  "gene_draw w = (case draws w of [] \<Rightarrow> (0, w) | r # rs \<Rightarrow> (r, w\<lparr>draws := rs\<rparr>))"

text \<open>The member at an address; an address outside \<open>objects\<close> reads as a member of zero
  fields and is written to without effect, so that no method panics.\<close>

definition gene_at :: "gene_world \<Rightarrow> nat \<Rightarrow> gene_member" where
  "gene_at w p =
     (if p < length (objects w) then objects w ! p
      else \<lparr>FitnessScore = 0, SurvivalChance = 0, gene = 0\<rparr>)"

definition gene_put :: "nat \<Rightarrow> gene_member \<Rightarrow> gene_world \<Rightarrow> gene_world" where
  "gene_put p m w = w\<lparr>objects := (objects w)[p := m]\<rparr>"

definition gene_Member :: "(nat, gene_world) Member" where
  "gene_Member =
     \<lparr>GetFitnessScore = (\<lambda>p w. FitnessScore (gene_at w p)),
      GetSurvivalChance = (\<lambda>p w. SurvivalChance (gene_at w p)),
      SetSurvivalChance = (\<lambda>p chance w. gene_put p ((gene_at w p)\<lparr>SurvivalChance := chance\<rparr>) w),
      Distance = (\<lambda>p q w. Inr w),
      ComputeAndSetFitnessScore = (\<lambda>p w.
         Inr (gene_put p ((gene_at w p)\<lparr>FitnessScore := gene (gene_at w p)\<rparr>) w)),
      Crossover = (\<lambda>p q w.
         Inr (length (objects w),
              w\<lparr>objects := objects w @
                 [\<lparr>FitnessScore = 0, SurvivalChance = 0,
                   gene = (if FitnessScore (gene_at w p) \<ge> FitnessScore (gene_at w q)
                           then gene (gene_at w p) else gene (gene_at w q))\<rparr>]\<rparr>)),
      Mutate = (\<lambda>p w. Inr (gene_put p ((gene_at w p)\<lparr>gene := gene (gene_at w p) + 1\<rparr>) w)),
      zeroValue = 0\<rparr>"

text \<open>A world of members with the given genes, scores and chances still zero.\<close>

definition gene_world_of :: "32 word list \<Rightarrow> rat list \<Rightarrow> gene_world" where
  "gene_world_of gs rs =
     \<lparr>objects = map (\<lambda>g. \<lparr>FitnessScore = 0, SurvivalChance = 0, gene = g\<rparr>) gs, draws = rs\<rparr>"

text \<open>No method of the interface panics, whatever the receiver and the state.\<close>

definition returns :: "error + 'a \<Rightarrow> bool" where
  "returns r = (case r of Inl e \<Rightarrow> False | Inr x \<Rightarrow> True)"

definition never_panics :: "('m, 'w) Member \<Rightarrow> bool" where
  "never_panics ops =
     ((\<forall>a b w. returns (Distance ops a b w)) \<and>
      (\<forall>a w. returns (ComputeAndSetFitnessScore ops a w)) \<and>
      (\<forall>a b w. returns (Crossover ops a b w)) \<and>
      (\<forall>a w. returns (Mutate ops a w)))"

section \<open>Package activation\<close>

datatype ActivationFunction = IdentityActivation | TanhActivation | SigmoidActivation

text \<open>\<^verbatim>\<open>math.Tanh\<close> and \<^verbatim>\<open>math.Exp\<close> have no rational values: the two library
  functions are parameters of the model.\<close>

record math =
  Tanh :: "float64 \<Rightarrow> float64"
  Exp :: "float64 \<Rightarrow> float64"

fun Compute :: "math \<Rightarrow> ActivationFunction \<Rightarrow> float64 \<Rightarrow> float64" where
  "Compute lib IdentityActivation x = x"
| "Compute lib TanhActivation x = Tanh lib x"
| "Compute lib SigmoidActivation x = 1 / (1 + Exp lib (- x))"

section \<open>Package neat\<close>

record node =
  id_node :: "32 word"
  layer :: "32 word"
  activation :: ActivationFunction

record connectionNodes =
  senderId :: "32 word"
  receiverId :: "32 word"

record connection =
  endpoints :: connectionNodes
  weight :: float64
  enabled :: bool
  innovationNo :: "64 word"

datatype mutationType = AddNode | AddConn

record mutation =
  typeId :: mutationType
  conn :: connection

record DataEntry =
  input_vec :: "float64 list"
  output_vec :: "float64 list"

type_synonym DataSet = "DataEntry list"

record Network = MemberData +
  nodes :: "node list"
  connections :: "connection list"
  nInputs :: "32 word"
  nOutputs :: "32 word"
  nSimilar :: "32 word"
  sorted_flag :: bool

definition maxDepth :: "32 word" where
  "maxDepth = 20"

text \<open>
  The state of the package: the networks allocated so far (a \<^verbatim>\<open>*Network\<close> is \<open>Some\<close>
  of an index into \<open>heap\<close>, or \<open>None\<close> for \<^verbatim>\<open>nil\<close>), the package variables, and the
  draws the random generator will hand out (\<open>rand_floats\<close> to \<^verbatim>\<open>rand.Float32\<close> and
  \<^verbatim>\<open>rand.Float64\<close>, \<open>rand_ints\<close> to \<^verbatim>\<open>rand.IntN\<close>). \<open>mutationHistory\<close> is \<open>None\<close>
  for a \<^verbatim>\<open>nil\<close> map: the source declares the variable and never allocates a map for it.
\<close>

record neat_world =
  heap :: "Network list"
  innovationNoTracker :: "64 word"
  mutationHistory :: "(connectionNodes \<rightharpoonup> mutation) option"
  testSet :: DataSet
  rand_floats :: "rat list"
  rand_ints :: "nat list"

text \<open>The package state when the program starts.\<close>

definition init_world :: "rat list \<Rightarrow> nat list \<Rightarrow> neat_world" where
  "init_world fs ks =
     \<lparr>heap = [], innovationNoTracker = 0, mutationHistory = None, testSet = [],
      rand_floats = fs, rand_ints = ks\<rparr>"

definition Float32 :: "neat_world \<Rightarrow> float32 \<times> neat_world" where
  "Float32 w = (case rand_floats w of [] \<Rightarrow> (0, w) | r # rs \<Rightarrow> (r, w\<lparr>rand_floats := rs\<rparr>))"

definition Float64 :: "neat_world \<Rightarrow> float64 \<times> neat_world" where
  "Float64 w = (case rand_floats w of [] \<Rightarrow> (0, w) | r # rs \<Rightarrow> (r, w\<lparr>rand_floats := rs\<rparr>))"

definition IntN :: "nat \<Rightarrow> neat_world \<Rightarrow> error + (nat \<times> neat_world)" where
  "IntN n w =
     (if n = 0 then Inl InvalidArgumentToIntN
      else (case rand_ints w of
              [] \<Rightarrow> Inr (0, w)
            | k # ks \<Rightarrow> Inr (k mod n, w\<lparr>rand_ints := ks\<rparr>)))"

definition deref :: "neat_world \<Rightarrow> nat option \<Rightarrow> error + Network" where
  "deref w p =
     (case p of
        None \<Rightarrow> Inl NilPointerDereference
      | Some a \<Rightarrow> if a < length (heap w) then Inr (heap w ! a) else Inl NilPointerDereference)"

definition store :: "nat option \<Rightarrow> Network \<Rightarrow> neat_world \<Rightarrow> neat_world" where
  "store p net w = (case p of None \<Rightarrow> w | Some a \<Rightarrow> w\<lparr>heap := (heap w)[a := net]\<rparr>)"

definition getNewInnovationNumber :: "neat_world \<Rightarrow> 64 word \<times> neat_world" where
  "getNewInnovationNumber w =
     (let w' = w\<lparr>innovationNoTracker := innovationNoTracker w + 1\<rparr>
      in (innovationNoTracker w' - 1, w'))"

definition randomWeight :: "neat_world \<Rightarrow> float64 \<times> neat_world" where
  "randomWeight w = (case Float64 w of (r, w') \<Rightarrow> (r * 2 - 1, w'))"

definition clearMutationHistory :: "neat_world \<Rightarrow> neat_world" where
  "clearMutationHistory w =
     w\<lparr>mutationHistory := map_option (\<lambda>h. Map.empty) (mutationHistory w)\<rparr>"

text \<open>Reading a \<^verbatim>\<open>nil\<close> map finds nothing; writing to it panics.\<close>

definition history_lookup :: "neat_world \<Rightarrow> connectionNodes \<Rightarrow> mutation option" where
  "history_lookup w k = (case mutationHistory w of None \<Rightarrow> None | Some h \<Rightarrow> h k)"

definition history_store :: "connectionNodes \<Rightarrow> mutation \<Rightarrow> neat_world \<Rightarrow> error + neat_world" where
  "history_store k m w =
     (case mutationHistory w of
        None \<Rightarrow> Inl AssignmentToEntryInNilMap
      | Some h \<Rightarrow> Inr (w\<lparr>mutationHistory := Some (h(k \<mapsto> m))\<rparr>))"

definition new_nodes :: "32 word \<Rightarrow> 32 word \<Rightarrow> node list" where
  "new_nodes nIn nOut =
     map (\<lambda>i. \<lparr>id_node = of_nat i, layer = 0, activation = IdentityActivation\<rparr>) [0..<unat nIn] @
     map (\<lambda>i. \<lparr>id_node = of_nat i + nIn, layer = maxDepth, activation = SigmoidActivation\<rparr>)
       [0..<unat nOut]"

definition NewNetwork :: "32 word \<Rightarrow> 32 word \<Rightarrow> neat_world \<Rightarrow> nat option \<times> neat_world" where
  "NewNetwork nIn nOut w =
     (Some (length (heap w)),
      w\<lparr>heap := heap w @
         [\<lparr>FitnessScore = 0, SurvivalChance = 0, nodes = new_nodes nIn nOut, connections = [],
           nInputs = nIn, nOutputs = nOut, nSimilar = 0, sorted_flag = False\<rparr>]\<rparr>)"

text \<open>The branch of \<^verbatim>\<open>addConnection\<close> that creates a connection: the connection is
  appended to the network before the history is written.\<close>

definition addConnection_fresh ::
  "nat option \<Rightarrow> Network \<Rightarrow> connectionNodes \<Rightarrow> neat_world \<Rightarrow> error + neat_world" where
  "addConnection_fresh p net newEndpoints w =
     (case randomWeight w of (r, w1) \<Rightarrow>
     (case getNewInnovationNumber w1 of (n, w2) \<Rightarrow>
        let newConnection = \<lparr>endpoints = newEndpoints, weight = r, enabled = True, innovationNo = n\<rparr>
        in history_store newEndpoints \<lparr>typeId = AddConn, conn = newConnection\<rparr>
             (store p (net\<lparr>connections := connections net @ [newConnection]\<rparr>) w2)))"

text \<open>\<^verbatim>\<open>addConnection\<close>. The two node indices come from \<^verbatim>\<open>rand.IntN(len(net.nodes))\<close>, so
  they are below \<open>length (nodes net)\<close>.\<close>

definition addConnection :: "nat option \<Rightarrow> neat_world \<Rightarrow> error + neat_world" where
  "addConnection p w0 =
     (case deref w0 p of Inl e \<Rightarrow> Inl e | Inr net \<Rightarrow>
     (case IntN (length (nodes net)) w0 of Inl e \<Rightarrow> Inl e | Inr (senderNodeId, w1) \<Rightarrow>
     (case IntN (length (nodes net)) w1 of Inl e \<Rightarrow> Inl e | Inr (receiverNodeId, w2) \<Rightarrow>
        let newEndpoints = \<lparr>senderId = of_nat senderNodeId, receiverId = of_nat receiverNodeId\<rparr>
        in if senderNodeId = receiverNodeId \<or>
              layer (nodes net ! senderNodeId) \<ge> layer (nodes net ! receiverNodeId)
           then Inr w2
           else if list_ex (\<lambda>c. endpoints c = newEndpoints) (connections net) then Inr w2
           else
             (case history_lookup w2 newEndpoints of
                Some mut \<Rightarrow>
                  if typeId mut = AddConn
                  then Inr (store p (net\<lparr>connections := connections net @ [conn mut]\<rparr>) w2)
                  else addConnection_fresh p net newEndpoints w2
              | None \<Rightarrow> addConnection_fresh p net newEndpoints w2))))"

text \<open>The branch of \<^verbatim>\<open>addNode\<close> that creates the two connections; \<open>net1\<close> already holds
  the new node.\<close>

definition addNode_fresh ::
  "nat option \<Rightarrow> Network \<Rightarrow> connectionNodes \<Rightarrow> connectionNodes \<Rightarrow> neat_world \<Rightarrow>
   error + neat_world" where
  "addNode_fresh p net1 newEndpoints1 newEndpoints2 w =
     (case randomWeight w of (r1, w1) \<Rightarrow>
     (case getNewInnovationNumber w1 of (n1, w2) \<Rightarrow>
     (case randomWeight w2 of (r2, w3) \<Rightarrow>
     (case getNewInnovationNumber w3 of (n2, w4) \<Rightarrow>
        let newConnection1 = \<lparr>endpoints = newEndpoints1, weight = r1, enabled = True, innovationNo = n1\<rparr>;
            newConnection2 = \<lparr>endpoints = newEndpoints2, weight = r2, enabled = True, innovationNo = n2\<rparr>;
            w5 = store p (net1\<lparr>connections := connections net1 @ [newConnection1, newConnection2]\<rparr>) w4
        in (case history_store newEndpoints1 \<lparr>typeId = AddNode, conn = newConnection1\<rparr> w5 of
              Inl e \<Rightarrow> Inl e
            | Inr w6 \<Rightarrow> history_store newEndpoints2 \<lparr>typeId = AddNode, conn = newConnection2\<rparr> w6)))))"

text \<open>\<^verbatim>\<open>addNode\<close>. The connection index comes from \<^verbatim>\<open>rand.IntN(len(net.connections))\<close>,
  so it is below \<open>length (connections net)\<close>; the sender is looked up in the node list by
  its identifier, which can be out of range.\<close>

definition addNode :: "nat option \<Rightarrow> neat_world \<Rightarrow> error + neat_world" where
  "addNode p w0 =
     (case deref w0 p of Inl e \<Rightarrow> Inl e | Inr net \<Rightarrow>
     (case IntN (length (connections net)) w0 of Inl e \<Rightarrow> Inl e | Inr (connIndex, w1) \<Rightarrow>
        let connRef = connections net ! connIndex
        in if \<not> enabled connRef then Inr w1
           else
             (case index (nodes net) (unat (senderId (endpoints connRef))) of
                Inl e \<Rightarrow> Inl e
              | Inr senderNode \<Rightarrow>
                  let newLayer = layer senderNode + 1
                  in if newLayer \<ge> maxDepth then Inr w1
                     else
                       let newNode = \<lparr>id_node = of_nat (length (nodes net)), layer = newLayer,
                                      activation = TanhActivation\<rparr>;
                           newEndpoints1 = \<lparr>senderId = senderId (endpoints connRef),
                                            receiverId = id_node newNode\<rparr>;
                           newEndpoints2 = \<lparr>senderId = id_node newNode,
                                            receiverId = receiverId (endpoints connRef)\<rparr>;
                           net1 = net\<lparr>nodes := nodes net @ [newNode]\<rparr>
                       in (case (history_lookup w1 newEndpoints1, history_lookup w1 newEndpoints2) of
                             (Some mut1, Some mut2) \<Rightarrow>
                               if typeId mut1 = AddNode \<and> typeId mut2 = AddNode
                               then Inr (store p
                                      (net1\<lparr>connections := connections net1 @ [conn mut1, conn mut2]\<rparr>) w1)
                               else addNode_fresh p net1 newEndpoints1 newEndpoints2 w1
                           | _ \<Rightarrow> addNode_fresh p net1 newEndpoints1 newEndpoints2 w1))))"

fun mutateWeights_loop :: "connection list \<Rightarrow> neat_world \<Rightarrow> connection list \<times> neat_world" where
  "mutateWeights_loop [] w = ([], w)"
| "mutateWeights_loop (c # cs) w =
     (case Float32 w of (r, w1) \<Rightarrow>
        if r < 1 / 10
        then (case randomWeight w1 of (x, w2) \<Rightarrow>
                (case mutateWeights_loop cs w2 of (cs', w3) \<Rightarrow> (c\<lparr>weight := x\<rparr> # cs', w3)))
        else (case mutateWeights_loop cs w1 of (cs', w3) \<Rightarrow> (c # cs', w3)))"

definition mutateWeights :: "nat option \<Rightarrow> neat_world \<Rightarrow> error + neat_world" where
  "mutateWeights p w =
     (case deref w p of Inl e \<Rightarrow> Inl e | Inr net \<Rightarrow>
        (case mutateWeights_loop (connections net) w of
           (cs, w1) \<Rightarrow> Inr (store p (net\<lparr>connections := cs\<rparr>) w1)))"

definition Network_Mutate :: "nat option \<Rightarrow> neat_world \<Rightarrow> error + neat_world" where
  "Network_Mutate p w =
     (case Float32 w of (mutationKind, w1) \<Rightarrow>
        if mutationKind < 3 / 10 then addConnection p w1
        else if mutationKind < 3 / 10 + 5 / 100 then addNode p w1
        else mutateWeights p w1)"

text \<open>
  A call that panics has already changed what it changed: the network is updated in
  place. \<open>addConnection_at_panic\<close> is the state at \<^verbatim>\<open>neat.go:137\<close> when the call panics
  there on the \<^verbatim>\<open>nil\<close> map, with the connection of line 136 in the network and the
  innovation counter advanced; it is \<open>None\<close> for a call that does not come to panic
  there. The call dies between \<^verbatim>\<open>mutHistoryMutex.Lock()\<close> and \<^verbatim>\<open>Unlock()\<close> (the source
  does not defer the \<^verbatim>\<open>Unlock\<close>), so the mutex stays locked for the rest of the program.
\<close>

definition addConnection_at_panic :: "nat option \<Rightarrow> neat_world \<Rightarrow> neat_world option" where
  "addConnection_at_panic p w0 =
     (case deref w0 p of Inl e \<Rightarrow> None | Inr net \<Rightarrow>
     (case IntN (length (nodes net)) w0 of Inl e \<Rightarrow> None | Inr (senderNodeId, w1) \<Rightarrow>
     (case IntN (length (nodes net)) w1 of Inl e \<Rightarrow> None | Inr (receiverNodeId, w2) \<Rightarrow>
        let newEndpoints = \<lparr>senderId = of_nat senderNodeId, receiverId = of_nat receiverNodeId\<rparr>
        in if senderNodeId = receiverNodeId \<or>
              layer (nodes net ! senderNodeId) \<ge> layer (nodes net ! receiverNodeId)
           then None
           else if list_ex (\<lambda>c. endpoints c = newEndpoints) (connections net) then None
           else if mutationHistory w2 \<noteq> None then None
           else
             (case randomWeight w2 of (r, w3) \<Rightarrow>
             (case getNewInnovationNumber w3 of (n, w4) \<Rightarrow>
                let newConnection =
                      \<lparr>endpoints = newEndpoints, weight = r, enabled = True, innovationNo = n\<rparr>
                in Some (store p (net\<lparr>connections := connections net @ [newConnection]\<rparr>) w4))))))"

text \<open>
  \<open>addNode_at_lock\<close> is the state when \<^verbatim>\<open>addNode\<close> comes to \<^verbatim>\<open>mutHistoryMutex.Lock()\<close>
  (\<^verbatim>\<open>neat.go:170\<close>): the new node is in the network (line 164), no connection has been
  added. It is \<open>None\<close> for a call that returns or panics before that line. A call that
  finds the mutex locked by a call that died waits at that line for ever.
\<close>

definition addNode_at_lock :: "nat option \<Rightarrow> neat_world \<Rightarrow> neat_world option" where
  "addNode_at_lock p w0 =
     (case deref w0 p of Inl e \<Rightarrow> None | Inr net \<Rightarrow>
     (case IntN (length (connections net)) w0 of Inl e \<Rightarrow> None | Inr (connIndex, w1) \<Rightarrow>
        let connRef = connections net ! connIndex
        in if \<not> enabled connRef then None
           else
             (case index (nodes net) (unat (senderId (endpoints connRef))) of
                Inl e \<Rightarrow> None
              | Inr senderNode \<Rightarrow>
                  let newLayer = layer senderNode + 1
                  in if newLayer \<ge> maxDepth then None
                     else
                       let newNode = \<lparr>id_node = of_nat (length (nodes net)), layer = newLayer,
                                      activation = TanhActivation\<rparr>
                       in Some (store p (net\<lparr>nodes := nodes net @ [newNode]\<rparr>) w1))))"




text \<open>
  \<^verbatim>\<open>slices.SortFunc\<close> of the Go library. On a slice of at most twelve elements the
  library runs an insertion sort: each element moves left while it compares less than its
  left neighbour (\<open>ins_rev\<close> works on the sorted prefix, last element first). On a longer
  slice it runs its pattern-defeating quicksort, which is not part of this repository:
  the parameter \<open>pdqsort\<close> stands for it. The comparison of the source subtracts the
  innovation numbers as \<^verbatim>\<open>int64\<close>.
\<close>

type_synonym 'a sorter = "'a list \<Rightarrow> ('a \<Rightarrow> 'a \<Rightarrow> int) \<Rightarrow> 'a list"

fun ins_rev :: "('a \<Rightarrow> 'a \<Rightarrow> int) \<Rightarrow> 'a \<Rightarrow> 'a list \<Rightarrow> 'a list" where
  "ins_rev cmp x [] = [x]"
| "ins_rev cmp x (y # ys) = (if cmp x y < 0 then y # ins_rev cmp x ys else x # y # ys)"

definition insertionSort :: "'a sorter" where
  "insertionSort xs cmp = rev (foldl (\<lambda>acc x. ins_rev cmp x acc) [] xs)"

definition SortFunc :: "'a sorter \<Rightarrow> 'a list \<Rightarrow> ('a \<Rightarrow> 'a \<Rightarrow> int) \<Rightarrow> 'a list" where
  "SortFunc pdqsort xs cmp = (if length xs \<le> 12 then insertionSort xs cmp else pdqsort xs cmp)"

definition cmpInnovation :: "connection \<Rightarrow> connection \<Rightarrow> int" where
  "cmpInnovation a b = sint (innovationNo a - innovationNo b)"

text \<open>\<^verbatim>\<open>if !net.sorted { slices.SortFunc(net.connections, ...); net.sorted = true }\<close>:
  what the block does to a network, and the block run in place on the network behind
  \<open>p\<close>.\<close>

definition sort_once :: "connection sorter \<Rightarrow> Network \<Rightarrow> Network" where
  "sort_once pdqsort net =
     (if \<not> sorted_flag net
      then net\<lparr>connections := SortFunc pdqsort (connections net) cmpInnovation, sorted_flag := True\<rparr>
      else net)"

definition sort_connections :: "connection sorter \<Rightarrow> nat option \<Rightarrow> neat_world \<Rightarrow> neat_world" where
  "sort_connections pdqsort p w =
     (case deref w p of Inl e \<Rightarrow> w | Inr net \<Rightarrow> store p (sort_once pdqsort net) w)"

text \<open>The counters \<open>(M, E, D, weightsDiff)\<close> of \<^verbatim>\<open>Distance\<close> after position \<open>i\<close>.\<close>

definition distance_step ::
  "connection list \<Rightarrow> connection list \<Rightarrow> 32 word \<times> 32 word \<times> 32 word \<times> float64 \<Rightarrow> nat \<Rightarrow>
   32 word \<times> 32 word \<times> 32 word \<times> float64" where
  "distance_step cs ds s i =
     (case s of (M, E, D, weightsDiff) \<Rightarrow>
        if i \<ge> length cs \<or> i \<ge> length ds then (M, E + 1, D, weightsDiff)
        else if innovationNo (cs ! i) = innovationNo (ds ! i)
        then (M + 1, E, D, weightsDiff + \<bar>weight (cs ! i) - weight (ds ! i)\<bar>)
        else (M, E, D + 1, weightsDiff))"

definition Network_Distance ::
  "connection sorter \<Rightarrow> nat option \<Rightarrow> nat option \<Rightarrow> neat_world \<Rightarrow>
   error + (float64 \<times> neat_world)" where
  "Network_Distance pdqsort p q w =
     (case deref w p of Inl e \<Rightarrow> Inl e | Inr net0 \<Rightarrow>
     (case deref w q of Inl e \<Rightarrow> Inl e | Inr other0 \<Rightarrow>
        let N0 = max (length (connections net0)) (length (connections other0));
            N = (if N0 < 20 then 1 else N0);
            w1 = sort_connections pdqsort p w;
            w2 = sort_connections pdqsort q w1
        in (case deref w2 p of Inl e \<Rightarrow> Inl e | Inr net \<Rightarrow>
           (case deref w2 q of Inl e \<Rightarrow> Inl e | Inr other \<Rightarrow>
              (case foldl (distance_step (connections net) (connections other)) (0, 0, 0, 0) [0..<N] of
                 (M, E, D, weightsDiff) \<Rightarrow>
                   let W = (if M > 0 then weightsDiff / of_nat (unat M) else 0);
                       distance = (1 * of_nat (unat E) / of_nat N) + (1 * of_nat (unat D) / of_nat N)
                                  + (4 / 10 * W)
                   in if distance < 3 / 10
                      then Inr (distance, store p (net\<lparr>nSimilar := nSimilar net + 1\<rparr>) w2)
                      else Inr (distance, w2))))))"

text \<open>\<^verbatim>\<open>copy(dst, src)\<close>: the first \<open>min (len dst) (len src)\<close> elements of \<open>dst\<close> are
  overwritten; the length of \<open>dst\<close> stays.\<close>

definition copy_slice :: "'a list \<Rightarrow> 'a list \<Rightarrow> 'a list" where
  "copy_slice dst src =
     take (min (length dst) (length src)) src @ drop (min (length dst) (length src)) dst"

text \<open>\<^verbatim>\<open>Feed\<close>. A connection of \<open>connectionsByLayer\<close> is kept by value: \<^verbatim>\<open>Feed\<close> changes
  no connection.\<close>

definition group_step ::
  "node list \<Rightarrow> connection \<Rightarrow> connection list list \<Rightarrow> error + connection list list" where
  "group_step ns c byLayer =
     (case index ns (unat (senderId (endpoints c))) of
        Inl e \<Rightarrow> Inl e
      | Inr senderNode \<Rightarrow>
          (case index byLayer (unat (layer senderNode)) of
             Inl e \<Rightarrow> Inl e
           | Inr l \<Rightarrow> Inr (byLayer[unat (layer senderNode) := l @ [c]])))"

definition feed_step ::
  "math \<Rightarrow> node list \<Rightarrow> connection \<Rightarrow> float64 list \<Rightarrow> error + float64 list" where
  "feed_step lib ns c accumulators =
     (if \<not> enabled c then Inr accumulators
      else
        (case index ns (unat (senderId (endpoints c))) of
           Inl e \<Rightarrow> Inl e
         | Inr inNode \<Rightarrow>
        (case index accumulators (unat (senderId (endpoints c))) of
           Inl e \<Rightarrow> Inl e
         | Inr inNodeAccumulator \<Rightarrow>
             let connInput = Compute lib (activation inNode) inNodeAccumulator;
                 connOutput = connInput * weight c
             in (case index accumulators (unat (receiverId (endpoints c))) of
                   Inl e \<Rightarrow> Inl e
                 | Inr old \<Rightarrow>
                     Inr (accumulators[unat (receiverId (endpoints c)) := old + connOutput])))))"

definition output_step ::
  "math \<Rightarrow> node list \<Rightarrow> float64 list \<Rightarrow> nat \<Rightarrow> float64 list \<Rightarrow> error + float64 list" where
  "output_step lib ns accumulators i out =
     (case index ns i of
        Inl e \<Rightarrow> Inl e
      | Inr nodeRef \<Rightarrow>
          (case index accumulators i of
             Inl e \<Rightarrow> Inl e
           | Inr a \<Rightarrow> Inr (out @ [Compute lib (activation nodeRef) a])))"

definition Feed :: "math \<Rightarrow> Network \<Rightarrow> float64 list \<Rightarrow> error + float64 list" where
  "Feed lib net inp =
     (if unat (nInputs net) > length (nodes net) then Inl IndexOutOfRange
      else
        let accumulators0 = replicate (length (nodes net)) 0;
            accumulators1 = copy_slice (take (unat (nInputs net)) accumulators0) inp
                            @ drop (unat (nInputs net)) accumulators0
        in (case foldM (group_step (nodes net)) (connections net) (replicate (unat maxDepth) []) of
              Inl e \<Rightarrow> Inl e
            | Inr connectionsByLayer \<Rightarrow>
           (case foldM (\<lambda>l. foldM (feed_step lib (nodes net)) l) connectionsByLayer accumulators1 of
              Inl e \<Rightarrow> Inl e
            | Inr accumulators \<Rightarrow>
                foldM (output_step lib (nodes net) accumulators)
                  [unat (nInputs net)..<unat (nInputs net + nOutputs net)] [])))"

text \<open>
  The last statement of \<^verbatim>\<open>ComputeAndSetFitnessScore\<close> divides by
  \<^verbatim>\<open>float64(net.nSimilar)\<close>. \<open>adjusted_fitness\<close> is the quotient, \<open>None\<close> when the divisor is
  zero: the floating-point result is then an infinity or a NaN. The conversion of the
  quotient to \<^verbatim>\<open>uint32\<close> truncates; where the value does not fit, the result is whatever
  the platform gives, the parameter \<open>conv\<close>.
\<close>

definition adjusted_fitness :: "float64 \<Rightarrow> 32 word \<Rightarrow> float64 option" where
  "adjusted_fitness fitness n =
     (if n = 0 then None else Some (10000 * fitness / of_nat (unat n)))"

definition uint32_of_float64 :: "(float64 option \<Rightarrow> 32 word) \<Rightarrow> float64 option \<Rightarrow> 32 word" where
  "uint32_of_float64 conv x =
     (case x of
        None \<Rightarrow> conv None
      | Some q \<Rightarrow> if 0 \<le> q \<and> q < 2 ^ 32 then of_int \<lfloor>q\<rfloor>
                  else if - 1 < q \<and> q < 0 then 0
                  else conv (Some q))"

definition entry_step ::
  "math \<Rightarrow> Network \<Rightarrow> DataEntry \<Rightarrow> float64 \<Rightarrow> error + float64" where
  "entry_step lib net entry fitness =
     (if length (input_vec entry) \<noteq> unat (nInputs net) \<or> length (output_vec entry) \<noteq> unat (nOutputs net)
      then Inl IncorrectDataEntry
      else
        (case Feed lib net (input_vec entry) of
           Inl e \<Rightarrow> Inl e
         | Inr result \<Rightarrow>
             (case foldM (\<lambda>i err. case index result i of
                                     Inl e \<Rightarrow> Inl e
                                   | Inr r \<Rightarrow> Inr (err + \<bar>r - output_vec entry ! i\<bar>))
                     [0..<unat (nOutputs net)] 0 of
                Inl e \<Rightarrow> Inl e
              | Inr err \<Rightarrow> Inr (fitness + (of_nat (unat (nOutputs net)) - err) ^ 2))))"

definition Network_ComputeAndSetFitnessScore ::
  "math \<Rightarrow> (float64 option \<Rightarrow> 32 word) \<Rightarrow> nat option \<Rightarrow> neat_world \<Rightarrow> error + neat_world" where
  "Network_ComputeAndSetFitnessScore lib conv p w =
     (let w1 = (if mutationHistory w \<noteq> None \<and> mutationHistory w \<noteq> Some Map.empty
                then clearMutationHistory w else w)
      in (case deref w1 p of Inl e \<Rightarrow> Inl e | Inr net \<Rightarrow>
         (case foldM (entry_step lib net) (testSet w1) 0 of
            Inl e \<Rightarrow> Inl e
          | Inr fitness \<Rightarrow>
              Inr (store p
                    (net\<lparr>FitnessScore :=
                           uint32_of_float64 conv (adjusted_fitness fitness (nSimilar net))\<rparr>) w1))))"

text \<open>The loop of \<^verbatim>\<open>Crossover\<close> over the positions \<open>is\<close>; \<open>acc\<close> is the child's connections.\<close>

fun crossover_loop ::
  "connection list \<Rightarrow> connection list \<Rightarrow> nat list \<Rightarrow> connection list \<Rightarrow> neat_world \<Rightarrow>
   connection list \<times> neat_world" where
  "crossover_loop cs ds [] acc w = (acc, w)"
| "crossover_loop cs ds (i # is) acc w =
     (if i \<ge> length cs then (acc, w)
      else if i \<ge> length ds then crossover_loop cs ds is (acc @ [cs ! i]) w
      else (case Float32 w of (r, w1) \<Rightarrow>
              if r < 1 / 2 then crossover_loop cs ds is (acc @ [cs ! i]) w1
              else crossover_loop cs ds is (acc @ [ds ! i]) w1))"

definition Network_Crossover ::
  "connection sorter \<Rightarrow> nat option \<Rightarrow> nat option \<Rightarrow> neat_world \<Rightarrow>
   error + (nat option \<times> neat_world)" where
  "Network_Crossover pdqsort p q w =
     (case deref w p of Inl e \<Rightarrow> Inl e | Inr net0 \<Rightarrow>
     (case deref w q of Inl e \<Rightarrow> Inl e | Inr other0 \<Rightarrow>
     (case NewNetwork (nInputs net0) (nOutputs net0) w of (newNetwork, w1) \<Rightarrow>
        let N = max (length (connections net0)) (length (connections other0));
            w2 = sort_connections pdqsort p w1;
            w3 = sort_connections pdqsort q w2
        in (case deref w3 p of Inl e \<Rightarrow> Inl e | Inr net \<Rightarrow>
           (case deref w3 q of Inl e \<Rightarrow> Inl e | Inr other \<Rightarrow>
           (case deref w3 newNetwork of Inl e \<Rightarrow> Inl e | Inr child \<Rightarrow>
           (case crossover_loop (connections net) (connections other) [0..<N] (connections child) w3 of
              (cs, w4) \<Rightarrow>
                Inr (newNetwork,
                     store newNetwork
                       (child\<lparr>connections := cs, nodes := copy_slice (nodes child) (nodes net)\<rparr>)
                       w4))))))))"

text \<open>
  \<^verbatim>\<open>*Network\<close> as a \<^verbatim>\<open>ga.Member\<close>. The getters and the setter of a \<^verbatim>\<open>nil\<close> receiver
  would panic; the populations of this development hold no \<^verbatim>\<open>nil\<close>, and the model lets
  them read 0 and write nothing there. The interface method \<^verbatim>\<open>Distance\<close> returns the
  distance, which \<^verbatim>\<open>Solve\<close> drops.
\<close>

definition Network_Member ::
  "math \<Rightarrow> (float64 option \<Rightarrow> 32 word) \<Rightarrow> connection sorter \<Rightarrow>
   (nat option, neat_world) Member" where
  "Network_Member lib conv pdqsort =
     \<lparr>GetFitnessScore = (\<lambda>p w. case deref w p of Inl e \<Rightarrow> 0 | Inr net \<Rightarrow> FitnessScore net),
      GetSurvivalChance = (\<lambda>p w. case deref w p of Inl e \<Rightarrow> 0 | Inr net \<Rightarrow> SurvivalChance net),
      SetSurvivalChance = (\<lambda>p chance w. case deref w p of Inl e \<Rightarrow> w
                                          | Inr net \<Rightarrow> store p (net\<lparr>SurvivalChance := chance\<rparr>) w),
      Distance = (\<lambda>p q w. case Network_Distance pdqsort p q w of Inl e \<Rightarrow> Inl e | Inr (d, w') \<Rightarrow> Inr w'),
      ComputeAndSetFitnessScore = Network_ComputeAndSetFitnessScore lib conv,
      Crossover = Network_Crossover pdqsort,
      Mutate = Network_Mutate,
      zeroValue = None\<rparr>"

text \<open>\<^verbatim>\<open>neat.NewSolver\<close> and \<^verbatim>\<open>neat.Solve\<close>. The options of package neat are those of package
  ga without \<^verbatim>\<open>Speciation\<close>, which \<^verbatim>\<open>neat.NewSolver\<close> sets.\<close>

fun new_members ::
  "nat \<Rightarrow> 32 word \<Rightarrow> 32 word \<Rightarrow> nat option list \<Rightarrow> neat_world \<Rightarrow> nat option list \<times> neat_world" where
  "new_members 0 nIn nOut members w = (members, w)"
| "new_members (Suc k) nIn nOut members w =
     (case NewNetwork nIn nOut w of (p, w') \<Rightarrow> new_members k nIn nOut (members @ [p]) w')"

definition NEAT_NewSolver ::
  "32 word \<Rightarrow> 32 word \<Rightarrow> SolverOptions \<Rightarrow> neat_world \<Rightarrow>
   error + (nat option Solver \<times> neat_world)" where
  "NEAT_NewSolver nIn nOut opts w =
     (case new_members (unat (PopulationSize opts)) nIn nOut [] w of
        (members, w') \<Rightarrow>
          (case NewSolver members (opts\<lparr>Speciation := True\<rparr>) of
             Inl e \<Rightarrow> Inl e
           | Inr gaSolver \<Rightarrow> Inr (gaSolver, w')))"

definition NEAT_Solve ::
  "math \<Rightarrow> (float64 option \<Rightarrow> 32 word) \<Rightarrow> connection sorter \<Rightarrow> nat option Solver \<Rightarrow>
   neat_world \<Rightarrow> error + (nat option, neat_world) outcome" where
  "NEAT_Solve lib conv pdqsort gaSolver w =
     Solve (Network_Member lib conv pdqsort) Float32 gaSolver w"

text \<open>The feed-forward property of a network: every connection joins two nodes of the
  node list, the sender on a strictly lower layer than the receiver. A node is looked up
  by its position, as the source does (\<^verbatim>\<open>net.nodes[id]\<close>).\<close>

definition forward :: "Network \<Rightarrow> connection \<Rightarrow> bool" where
  "forward net c =
     (case (index (nodes net) (unat (senderId (endpoints c))),
            index (nodes net) (unat (receiverId (endpoints c)))) of
        (Inr s, Inr r) \<Rightarrow> layer s < layer r
      | _ \<Rightarrow> False)"

definition feed_forward :: "Network \<Rightarrow> bool" where
  "feed_forward net = list_all (forward net) (connections net)"

section \<open>Notions used by the statements\<close>

text \<open>\<open>first_max f xs i\<close>: position \<open>i\<close> of \<open>xs\<close> holds a maximum of \<open>f\<close>, and no earlier
  position does.\<close>

definition first_max :: "('a \<Rightarrow> nat) \<Rightarrow> 'a list \<Rightarrow> nat \<Rightarrow> bool" where
  "first_max f xs i \<longleftrightarrow> i < length xs \<and> (\<forall>j < length xs. f (xs ! j) \<le> f (xs ! i)) \<and> (\<forall>j < i. f (xs ! j) < f (xs ! i))"

text \<open>Every index of every batch is below \<open>n\<close>.\<close>

definition batches_within :: "BatchInfo list \<Rightarrow> nat \<Rightarrow> bool" where
  "batches_within batches n \<longleftrightarrow> (\<forall>b \<in> set batches. unat (End b) \<le> n)"

text \<open>What \<^verbatim>\<open>NewSolver\<close> establishes and every generation keeps: the population size is not
  zero and the population holds at least that many members.\<close>

definition solver_ok :: "'m Solver \<Rightarrow> bool" where
  "solver_ok solver \<longleftrightarrow>
     PopulationSize (options solver) \<noteq> 0 \<and>
     unat (PopulationSize (options solver)) \<le> length (population solver)"

section \<open>Notions and inputs used by the statements on networks\<close>

text \<open>The package state of \<open>init_world\<close> with an empty map allocated for
  \<open>mutationHistory\<close>, as \<^verbatim>\<open>make(map[connectionNodes]mutation)\<close> would.\<close>

definition registry_allocated :: "rat list \<Rightarrow> nat list \<Rightarrow> neat_world" where
  "registry_allocated fs ks = (init_world fs ks)\<lparr>mutationHistory := Some Map.empty\<rparr>"

text \<open>A network with one input, two outputs and the connections 0\<rightarrow>1 and 0\<rightarrow>2.\<close>

definition two_out :: Network where
  "two_out =
     \<lparr>FitnessScore = 0, SurvivalChance = 0, nodes = new_nodes 1 2,
      connections =
        [\<lparr>endpoints = \<lparr>senderId = 0, receiverId = 1\<rparr>, weight = 0, enabled = True, innovationNo = 0\<rparr>,
         \<lparr>endpoints = \<lparr>senderId = 0, receiverId = 2\<rparr>, weight = 0, enabled = True, innovationNo = 1\<rparr>],
      nInputs = 1, nOutputs = 2, nSimilar = 0, sorted_flag = False\<rparr>"


text \<open>A network whose connections are not in the order of their innovation numbers.\<close>

definition unsorted_parent :: Network where
  "unsorted_parent =
     \<lparr>FitnessScore = 0, SurvivalChance = 0, nodes = new_nodes 2 1,
      connections =
        [\<lparr>endpoints = \<lparr>senderId = 0, receiverId = 2\<rparr>, weight = 0, enabled = True, innovationNo = 5\<rparr>,
         \<lparr>endpoints = \<lparr>senderId = 1, receiverId = 2\<rparr>, weight = 0, enabled = True, innovationNo = 3\<rparr>],
      nInputs = 2, nOutputs = 1, nSimilar = 0, sorted_flag = False\<rparr>"

text \<open>A population as \<^verbatim>\<open>neat.NewSolver\<close> leaves it, in the package state of a program
  that has set no test set: every member is a network without connections whose
  \<open>nSimilar\<close> is 0.\<close>

definition fresh_population :: "nat option list \<Rightarrow> neat_world \<Rightarrow> bool" where
  "fresh_population pop w \<longleftrightarrow>
     mutationHistory w = None \<and> testSet w = [] \<and>
     (\<forall>p \<in> set pop. \<exists>net. deref w p = Inr net \<and> connections net = [] \<and> nSimilar net = 0)"

text \<open>What \<^verbatim>\<open>Crossover\<close> leaves of a parent \<open>n\<close>: in \<open>n'\<close> every field but the connections
  and the flag is as before, the connections are the same up to their order, the flag is
  set, and a parent already flagged is unchanged.\<close>

definition parent_kept :: "Network \<Rightarrow> Network \<Rightarrow> bool" where
  "parent_kept n n' \<longleftrightarrow>
     nodes n' = nodes n \<and> FitnessScore n' = FitnessScore n \<and>
     SurvivalChance n' = SurvivalChance n \<and> nInputs n' = nInputs n \<and>
     nOutputs n' = nOutputs n \<and> nSimilar n' = nSimilar n \<and>
     mset (connections n') = mset (connections n) \<and> sorted_flag n' \<and>
     (sorted_flag n \<longrightarrow> n' = n)"

text \<open>What is known of the library's sort of a longer slice: it permutes the slice.\<close>

definition sorter_permutes :: "'a sorter \<Rightarrow> bool" where
  "sorter_permutes pdqsort \<longleftrightarrow> (\<forall>xs cmp. mset (pdqsort xs cmp) = mset xs)"

section \<open>Verification: batching\<close>

lemma BuildBatchesList_10_3: "BuildBatchesList 10 3 = Inr [\<lparr>Start = 0, End = 3\<rparr>, \<lparr>Start = 3, End = 6\<rparr>, \<lparr>Start = 6, End = 10\<rparr>]"
  by code_simp

lemma unat_of_nat_le: "unat (of_nat n :: 'a::len word) \<le> n"
  by (simp only: unat_of_nat) (rule mod_less_eq_dividend)

lemma batches_loop_closed:
  "B = unat batchSize \<Longrightarrow> start = of_nat (j * B) \<Longrightarrow> e = of_nat (Suc j * B) \<Longrightarrow>
   (j + k) * B \<le> unat nElements \<Longrightarrow>
   batches_loop k nElements batchSize start e acc =
   acc @ map (\<lambda>i. \<lparr>Start = of_nat (i * B), End = of_nat (Suc i * B)\<rparr>) [j..<j + k]"
proof (induction k arbitrary: j acc start e)
  case 0
  then show ?case by simp
next
  case (Suc k)
  have le: "Suc j * B \<le> unat nElements"
    using Suc.prems(4) by (simp add: algebra_simps) 
  have ngt: "\<not> e > nElements"
  proof -
    have "unat e \<le> Suc j * B"
      unfolding Suc.prems(3) by (rule unat_of_nat_le)
    then have "unat e \<le> unat nElements"
      using le by linarith
    then show ?thesis by (simp add: word_less_nat_alt)
  qed
  have nxt: "e + batchSize = of_nat (Suc (Suc j) * B)"
    unfolding Suc.prems(3) Suc.prems(1) by simp
  have bound: "(Suc j + k) * B \<le> unat nElements"
    using Suc.prems(4) by simp
  have "batches_loop k nElements batchSize e (e + batchSize) (acc @ [\<lparr>Start = start, End = e\<rparr>]) =
        (acc @ [\<lparr>Start = start, End = e\<rparr>]) @
        map (\<lambda>i. \<lparr>Start = of_nat (i * B), End = of_nat (Suc i * B)\<rparr>) [Suc j..<Suc j + k]"
    by (rule Suc.IH[OF Suc.prems(1) Suc.prems(3) nxt bound])
  then show ?case
    using ngt Suc.prems(2) Suc.prems(3)
    by (simp add: upt_rec[of j] Let_def del: of_nat_mult of_nat_add mult_Suc)
qed

lemma BuildBatchesList_closed:
  assumes ne: "nElements \<noteq> 0" and nb: "nBatches \<noteq> 0"
  shows "BuildBatchesList nElements nBatches =
     Inr (map (\<lambda>i. \<lparr>Start = of_nat (i * (unat nElements div unat nBatches)),
                     End = (if i = unat nBatches - 1 then nElements
                            else of_nat (Suc i * (unat nElements div unat nBatches)))\<rparr>)
              [0..<unat nBatches])"
proof -
  let ?b = "unat nBatches" and ?B = "unat nElements div unat nBatches"
  let ?f = "\<lambda>i. \<lparr>Start = (of_nat (i * ?B) :: 32 word), End = of_nat (Suc i * ?B)\<rparr>"
  let ?g = "\<lambda>i. \<lparr>Start = (of_nat (i * ?B) :: 32 word),
                 End = (if i = ?b - 1 then nElements else of_nat (Suc i * ?B))\<rparr>"
  have B: "unat (nElements div nBatches) = ?B" by (simp add: unat_div)
  have bpos: "0 < ?b" using nb by (simp add: unat_gt_0)
  have loop: "batches_loop ?b nElements (nElements div nBatches) 0 (nElements div nBatches) [] =
        [] @ map ?f [0..<0 + ?b]"
  proof (rule batches_loop_closed)
    show "?B = unat (nElements div nBatches)" by (simp add: B)
    show "(0::32 word) = of_nat (0 * ?B)" by simp
    show "nElements div nBatches = of_nat (Suc 0 * ?B)"
      using word_arith_nat_div[of nElements nBatches] by simp
    show "(0 + ?b) * ?B \<le> unat nElements" by simp
  qed
  have k: "unat (nBatches - 1) = ?b - 1"
    using nb by (simp add: unat_minus_one)
  have upd: "(map ?f [0..<?b])[?b - 1 := (map ?f [0..<?b] ! (?b - 1))\<lparr>End := nElements\<rparr>] = map ?g [0..<?b]"
    using bpos by (intro nth_equalityI) (auto simp: nth_list_update)
  have same: "End (map ?f [0..<?b] ! (?b - 1)) = nElements \<Longrightarrow> map ?f [0..<?b] = map ?g [0..<?b]"
    using bpos by (intro nth_equalityI) auto
  show ?thesis
    unfolding BuildBatchesList_def Let_def loop k
    using ne nb bpos upd same by (simp del: of_nat_mult of_nat_add mult_Suc)
qed

text \<open>
  Claim C3. For \<open>1 \<le> nBatches \<le> max nElements 1\<close>, \<^verbatim>\<open>BuildBatchesList\<close> returns
  normally; the result is empty when \<open>nElements = 0\<close>; otherwise it has exactly
  \<open>nBatches\<close> half-open ranges, the first starting at 0, each starting where the one
  before ends (contiguous), pairwise disjoint, with union \<open>[0, nElements)\<close>; every
  range but the last has size \<open>nElements div nBatches\<close> and the last has that size plus
  the remainder. \<^verbatim>\<open>BuildBatchesList(10, 3)\<close> is \<open>[0,3), [3,6), [6,10)\<close>.
\<close>

theorem BuildBatchesList_partition:
  assumes lo: "1 \<le> nBatches" and hi: "nBatches \<le> max nElements 1"
  shows "\<exists>batches. BuildBatchesList nElements nBatches = Inr batches \<and>
     (nElements = 0 \<longrightarrow> batches = []) \<and>
     (nElements \<noteq> 0 \<longrightarrow>
        length batches = unat nBatches \<and>
        Start (hd batches) = 0 \<and>
        End (last batches) = nElements \<and>
        (\<forall>i. Suc i < length batches \<longrightarrow> Start (batches ! Suc i) = End (batches ! i)) \<and>
        (\<forall>i. i < length batches \<longrightarrow> Start (batches ! i) \<le> End (batches ! i)) \<and>
        (\<forall>i. Suc i < length batches \<longrightarrow>
             unat (End (batches ! i)) - unat (Start (batches ! i)) = unat nElements div unat nBatches) \<and>
        unat (End (last batches)) - unat (Start (last batches)) =
             unat nElements div unat nBatches + unat nElements mod unat nBatches \<and>
        (\<forall>i j. i < j \<longrightarrow> j < length batches \<longrightarrow>
             batch_range (batches ! i) \<inter> batch_range (batches ! j) = {}) \<and>
        (\<Union>b \<in> set batches. batch_range b) = {0..<unat nElements}) \<and>
     BuildBatchesList 10 3 =
       Inr [\<lparr>Start = 0, End = 3\<rparr>, \<lparr>Start = 3, End = 6\<rparr>, \<lparr>Start = 6, End = 10\<rparr>]"
proof (cases "nElements = 0")
  case True
  then have "BuildBatchesList nElements nBatches = Inr []"
    by (simp add: BuildBatchesList_def)
  then show ?thesis using True BuildBatchesList_10_3 by simp
next
  case False
  let ?b = "unat nBatches" and ?N = "unat nElements" and ?B = "unat nElements div unat nBatches"
  let ?g = "\<lambda>i. \<lparr>Start = (of_nat (i * ?B) :: 32 word),
                 End = (if i = ?b - 1 then nElements else of_nat (Suc i * ?B))\<rparr>"
  let ?L = "map ?g [0..<?b]"
  have nb: "nBatches \<noteq> 0" using lo by auto
  have bpos: "0 < ?b" using nb by (simp add: unat_gt_0)
  have bB: "?b * ?B \<le> ?N" by simp
  have Nlt: "?N < 2 ^ 32" using unsigned_less[of nElements, where ?'a=nat] by simp
  have iB: "i * ?B \<le> ?N" if "i \<le> ?b" for i
  proof -
    have "i * ?B \<le> ?b * ?B" using that by (rule mult_le_mono1)
    then show ?thesis using bB by linarith
  qed
  have un: "unat (of_nat (i * ?B) :: 32 word) = i * ?B" if "i \<le> ?b" for i
    using iB[OF that] Nlt by (simp only: unat_of_nat) simp
  have st: "unat (Start (?L ! i)) = i * ?B" if "i < ?b" for i
    using that un[of i] by simp
  have en: "unat (End (?L ! i)) = (if i = ?b - 1 then ?N else Suc i * ?B)" if "i < ?b" for i
    using that un[of "Suc i"] by (simp del: mult_Suc)
  have rng: "batch_range (?L ! i) = {i * ?B..<(if i = ?b - 1 then ?N else Suc i * ?B)}" if "i < ?b" for i
    unfolding batch_range_def st[OF that] en[OF that] ..
  have closed: "BuildBatchesList nElements nBatches = Inr ?L"
    by (rule BuildBatchesList_closed[OF False nb])
  have len: "length ?L = ?b" by simp
  have p_hd: "Start (hd ?L) = 0"
    using bpos by (simp add: hd_map upt_conv_Cons)
  have p_last: "End (last ?L) = nElements"
    using bpos by (simp add: last_map)
  have p_contig: "Start (?L ! Suc i) = End (?L ! i)" if "Suc i < length ?L" for i
  proof -
    have "i \<noteq> ?b - 1" and "i < ?b" and "Suc i < ?b" using that by simp_all
    then show ?thesis by (simp del: of_nat_mult of_nat_add mult_Suc)
  qed
  have p_le: "Start (?L ! i) \<le> End (?L ! i)" if "i < length ?L" for i
  proof -
    have i: "i < ?b" using that by simp
    have "i * ?B \<le> (if i = ?b - 1 then ?N else Suc i * ?B)"
      using iB[of i] i by (cases "i = ?b - 1") simp_all
    then show ?thesis
      unfolding word_le_nat_alt st[OF i] en[OF i] .
  qed
  have p_size: "unat (End (?L ! i)) - unat (Start (?L ! i)) = ?B" if "Suc i < length ?L" for i
  proof -
    have i: "i < ?b" "i \<noteq> ?b - 1" using that by simp_all
    show ?thesis unfolding st[OF i(1)] en[OF i(1)] using i(2) by simp
  qed
  have p_lastsize: "unat (End (last ?L)) - unat (Start (last ?L)) = ?B + ?N mod ?b"
  proof -
    have l: "last ?L = ?L ! (?b - 1)" using bpos by (simp add: last_conv_nth)
    have i: "?b - 1 < ?b" using bpos by simp
    have "?N = ?b * ?B + ?N mod ?b" by simp
    moreover have "?b * ?B = (?b - 1) * ?B + ?B"
      using bpos by (cases ?b) simp_all
    ultimately have "?N - (?b - 1) * ?B = ?B + ?N mod ?b" by linarith
    then show ?thesis unfolding l st[OF i] en[OF i] by simp
  qed
  have p_disj: "batch_range (?L ! i) \<inter> batch_range (?L ! j) = {}" if "i < j" "j < length ?L" for i j
  proof -
    have j: "j < ?b" and i: "i < ?b" and ni: "i \<noteq> ?b - 1" using that by simp_all
    have "Suc i * ?B \<le> j * ?B" using that(1) by (intro mult_le_mono1) simp
    then show ?thesis unfolding rng[OF i] rng[OF j] using ni by auto
  qed
  have p_union: "(\<Union>b \<in> set ?L. batch_range b) = {0..<?N}"
  proof (intro equalityI subsetI)
    fix x assume "x \<in> (\<Union>b \<in> set ?L. batch_range b)"
    then obtain b where b: "b \<in> set ?L" and xb: "x \<in> batch_range b" by blast
    from b obtain i where il: "i < length ?L" and bi: "?L ! i = b"
      unfolding in_set_conv_nth by blast
    have i: "i < ?b" using il unfolding len .
    have x: "x \<in> batch_range (?L ! i)" using xb unfolding bi .
    have "Suc i * ?B \<le> ?N" using iB[of "Suc i"] i by simp
    then show "x \<in> {0..<?N}" using x unfolding rng[OF i] by (auto split: if_splits)
  next
    fix x assume "x \<in> {0..<?N}"
    then have xN: "x < ?N" by simp
    show "x \<in> (\<Union>b \<in> set ?L. batch_range b)"
    proof (cases "x < (?b - 1) * ?B")
      case True
      then have Bpos: "0 < ?B" by (cases "?B = 0") simp_all
      let ?i = "x div ?B"
      have ilt: "?i < ?b - 1" using True Bpos
        by (simp add: div_less_iff_less_mult)
      then have i: "?i < ?b" by simp
      have "?i * ?B \<le> x" by simp
      moreover have "x < Suc ?i * ?B" using Bpos
        by (metis dividend_less_div_times mult.commute mult_Suc add.commute)
      ultimately have "x \<in> batch_range (?L ! ?i)"
        unfolding rng[OF i] using ilt by simp
      moreover have "?L ! ?i \<in> set ?L" using i by (intro nth_mem) simp
      ultimately show ?thesis by blast
    next
      case False
      have i: "?b - 1 < ?b" using bpos by simp
      have "x \<in> batch_range (?L ! (?b - 1))"
        unfolding rng[OF i] using False xN by simp
      moreover have "?L ! (?b - 1) \<in> set ?L" using i by (intro nth_mem) simp
      ultimately show ?thesis by blast
    qed
  qed
  define L where "L = ?L"
  note facts = closed len p_hd p_last p_contig p_le p_size p_lastsize p_disj p_union
  note factsL = facts[folded L_def]
  show ?thesis
    using False factsL BuildBatchesList_10_3 by blast
qed

theorem BuildBatchesList_partition_witness:
  "(1::32 word) \<le> 3 \<and> (3::32 word) \<le> max 10 1 \<and>
   (\<exists>batches. BuildBatchesList 10 3 = Inr batches \<and> length batches = 3 \<and>
      (\<Union>b \<in> set batches. batch_range b) = {0..<10})"
proof -
  have a: "(1::32 word) \<le> 3" and b: "(3::32 word) \<le> max 10 1" by simp_all
  obtain batches where "BuildBatchesList 10 3 = Inr batches" 
    and "length batches = unat (3::32 word)"
    and "(\<Union>b \<in> set batches. batch_range b) = {0..<unat (10::32 word)}"
    using BuildBatchesList_partition[OF a b] by auto
  then show ?thesis using a b by simp
qed

section \<open>Verification: the solver\<close>

declare Solve_loop.simps [simp del]

lemma sint_ucast_diff:
  fixes a b :: "32 word"
  shows "sint ((ucast a :: 64 word) - ucast b) = uint a - uint b"
proof -
  have eq: "(ucast a :: 64 word) - ucast b = word_of_int (uint a - uint b)"
    by simp
  have b1: "uint a < 4294967296" "uint b < 4294967296"
    using uint_lt2p[of a] uint_lt2p[of b] by simp_all
  have b0: "0 \<le> uint a" "0 \<le> uint b" by simp_all
  have lo: "- 9223372036854775808 \<le> uint a - uint b" using b0 b1 by linarith
  have hi: "uint a - uint b < 9223372036854775808" using b0 b1 by linarith
  have "signed_take_bit 63 (uint a - uint b) = uint a - uint b"
    by (rule signed_take_bit_int_eq_self) (use lo hi in simp_all)
  moreover have "sint (word_of_int (uint a - uint b) :: 64 word) = signed_take_bit 63 (uint a - uint b)"
    by (simp only: sint_sbintrunc') simp
  ultimately have "sint (word_of_int (uint a - uint b) :: 64 word) = uint a - uint b"
    by (simp only:)
  then show ?thesis by (subst eq)
qed

lemma cmpFitness_pos:
  "cmpFitness ops w a b > 0 \<longleftrightarrow> GetFitnessScore ops b w < GetFitnessScore ops a w"
  unfolding cmpFitness_def sint_ucast_diff by (simp add: word_less_def)

lemma MaxFunc_loop_first_max:
  assumes cmp: "\<And>x y. cmp x y > 0 \<longleftrightarrow> f y < f x"
    and "first_max f pre i" and "m = pre ! i"
  shows "\<exists>k. first_max f (pre @ xs) k \<and> MaxFunc_loop cmp m xs = (pre @ xs) ! k"
  using assms(2,3)
proof (induction xs arbitrary: pre i m)
  case Nil
  then show ?case by auto
next
  case (Cons x xs)
  show ?case
  proof (cases "cmp x m > 0")
    case True
    then have lt: "f m < f x" using cmp by simp
    have fm: "first_max f (pre @ [x]) (length pre)"
      using Cons.prems lt unfolding first_max_def
      by (auto simp: nth_append less_Suc_eq intro: less_imp_le le_less_trans)
    have "\<exists>k. first_max f ((pre @ [x]) @ xs) k \<and> MaxFunc_loop cmp x xs = ((pre @ [x]) @ xs) ! k"
      by (rule Cons.IH[OF fm]) simp
    then show ?thesis using True by simp
  next
    case False
    then have le: "f x \<le> f m" using cmp by (simp add: not_less)
    have fm: "first_max f (pre @ [x]) i"
      using Cons.prems le unfolding first_max_def
      by (auto simp: nth_append less_Suc_eq)
    have "\<exists>k. first_max f ((pre @ [x]) @ xs) k \<and> MaxFunc_loop cmp m xs = ((pre @ [x]) @ xs) ! k"
      by (rule Cons.IH[OF fm]) (use Cons.prems in \<open>simp add: nth_append first_max_def\<close>)
    then show ?thesis using False by simp
  qed
qed

lemma MaxFunc_first_max:
  assumes cmp: "\<And>x y. cmp x y > 0 \<longleftrightarrow> f y < f x" and "MaxFunc xs cmp = Inr m"
  shows "\<exists>k. first_max f xs k \<and> m = xs ! k"
proof (cases xs)
  case Nil
  then show ?thesis using assms(2) by (simp add: MaxFunc_def)
next
  case (Cons x ys)
  have "first_max f [x] 0" by (simp add: first_max_def)
  from MaxFunc_loop_first_max[where f=f and cmp=cmp, OF cmp this, of x ys]
  show ?thesis using assms(2) Cons by (auto simp: MaxFunc_def)
qed


lemma foldM_returns:
  assumes "P s" and "\<And>x s. x \<in> set xs \<Longrightarrow> P s \<Longrightarrow> \<exists>s'. f x s = Inr s' \<and> P s'"
  shows "\<exists>s'. foldM f xs s = Inr s' \<and> P s'"
  using assms
proof (induction xs arbitrary: s)
  case Nil
  then show ?case by simp
next
  case (Cons x xs)
  from Cons.prems obtain s1 where s1: "f x s = Inr s1" "P s1" by (meson list.set_intros(1))
  have "\<exists>s'. foldM f xs s1 = Inr s' \<and> P s'"
    by (rule Cons.IH[OF s1(2)]) (use Cons.prems(2) in auto)
  then show ?case using s1 by simp
qed

lemma returnsE: "returns r \<Longrightarrow> \<exists>x. r = Inr x"
  by (cases r) (simp_all add: returns_def)

lemma never_panicsD:
  assumes "never_panics ops"
  shows "\<exists>w'. Distance ops a b w = Inr w'"
    and "\<exists>w'. ComputeAndSetFitnessScore ops a w = Inr w'"
    and "\<exists>c w'. Crossover ops a b w = Inr (c, w')"
    and "\<exists>w'. Mutate ops a w = Inr w'"
proof -
  have "returns (Distance ops a b w)" using assms unfolding never_panics_def by blast
  then show "\<exists>w'. Distance ops a b w = Inr w'" by (rule returnsE)
  have "returns (ComputeAndSetFitnessScore ops a w)" using assms unfolding never_panics_def by blast
  then show "\<exists>w'. ComputeAndSetFitnessScore ops a w = Inr w'" by (rule returnsE)
  have "returns (Crossover ops a b w)" using assms unfolding never_panics_def by blast
  then obtain x where "Crossover ops a b w = Inr x" using returnsE by blast
  then show "\<exists>c w'. Crossover ops a b w = Inr (c, w')" by (cases x) simp
  have "returns (Mutate ops a w)" using assms unfolding never_panics_def by blast
  then show "\<exists>w'. Mutate ops a w = Inr w'" by (rule returnsE)
qed

lemma batch_indices_lt:
  "batches_within batches n \<Longrightarrow> b \<in> set batches \<Longrightarrow> i \<in> set (batch_indices b) \<Longrightarrow> i < n"
  by (auto simp: batches_within_def batch_indices_def)

lemma distance_phase_returns:
  assumes "never_panics ops" and "batches_within batches (length pop)"
  shows "\<exists>w'. distance_phase ops batches pop w = Inr w'"
proof -
  have D: "\<exists>w'. Distance ops a b w = Inr w'" for a b w
    by (rule never_panicsD(1)[OF assms(1)])
  have "\<exists>w'. distance_phase ops batches pop w = Inr w' \<and> True"
    unfolding distance_phase_def
  proof (rule foldM_returns[where P="\<lambda>_. True"], simp)
    fix b s assume b: "b \<in> set batches"
    show "\<exists>s'. foldM (\<lambda>i. foldM (\<lambda>j w'. case index pop i of Inl e \<Rightarrow> Inl e
              | Inr mi \<Rightarrow> Distance ops mi (pop ! j) w') [0..<length pop]) (batch_indices b) s = Inr s' \<and> True"
    proof (rule foldM_returns[where P="\<lambda>_. True"], simp)
      fix i s assume i: "i \<in> set (batch_indices b)"
      have il: "i < length pop" by (rule batch_indices_lt[OF assms(2) b i])
      show "\<exists>s'. foldM (\<lambda>j w'. case index pop i of Inl e \<Rightarrow> Inl e
              | Inr mi \<Rightarrow> Distance ops mi (pop ! j) w') [0..<length pop] s = Inr s' \<and> True"
        by (rule foldM_returns[where P="\<lambda>_. True"], simp) (use il D in \<open>simp add: index_def\<close>)
    qed
  qed
  then show ?thesis by simp
qed

lemma fitness_phase_returns:
  assumes "never_panics ops" and "batches_within batches (length pop)"
  shows "\<exists>w' fs. fitness_phase ops batches pop w = Inr (w', fs)"
proof -
  have C: "\<exists>w'. ComputeAndSetFitnessScore ops a w = Inr w'" for a w
    by (rule never_panicsD(2)[OF assms(1)])
  have "\<exists>s'. fitness_phase ops batches pop w = Inr s' \<and> True"
    unfolding fitness_phase_def
  proof (rule foldM_returns[where P="\<lambda>_. True"], simp)
    fix b s assume b: "b \<in> set batches"
    show "\<exists>s'. foldM (fitness_step ops pop) (batch_indices b) s = Inr s' \<and> True"
    proof (rule foldM_returns[where P="\<lambda>_. True"], simp)
      fix i and s :: "'b \<times> 32 word" assume i: "i \<in> set (batch_indices b)"
      have il: "i < length pop" by (rule batch_indices_lt[OF assms(2) b i])
      obtain w0 fs where s: "s = (w0, fs)" by (cases s)
      obtain w1 where "ComputeAndSetFitnessScore ops (pop ! i) w0 = Inr w1" using C by blast
      then show "\<exists>s'. fitness_step ops pop i s = Inr s' \<and> True"
        using il by (simp add: fitness_step_def s index_def)
    qed
  qed
  then show ?thesis by (metis surj_pair)
qed

lemma pickRandomMember_returns:
  assumes "PopulationSize (options solver) \<noteq> 0"
    and "unat (PopulationSize (options solver)) \<le> length (population solver)"
  shows "\<exists>m w'. pickRandomMember ops rnd solver w = Inr (m, w')"
proof -
  have "unat (PopulationSize (options solver) - 1) < length (population solver)"
    using assms by (simp add: unat_minus_one unat_gt_0) (metis One_nat_def Suc_pred le_simps(3) unat_gt_0)
  then show ?thesis
    by (auto simp: pickRandomMember_def index_def split: prod.splits option.splits)
qed

lemma breeding_phase_returns:
  assumes np: "never_panics ops"
    and bw: "batches_within batches (unat (PopulationSize (options solver)))"
    and nz: "PopulationSize (options solver) \<noteq> 0"
    and le: "unat (PopulationSize (options solver)) \<le> length (population solver)"
  shows "\<exists>next w'. breeding_phase ops rnd batches solver w = Inr (next, w') \<and>
           length next = unat (PopulationSize (options solver))"
proof -
  let ?n = "unat (PopulationSize (options solver))"
  let ?P = "\<lambda>s :: 'a list \<times> 'b. length (fst s) = ?n"
  have X: "\<exists>c w'. Crossover ops a b w = Inr (c, w')" for a b w
    by (rule never_panicsD(3)[OF np])
  have M: "\<exists>w'. Mutate ops a w = Inr w'" for a w
    by (rule never_panicsD(4)[OF np])
  have step: "\<exists>s'. breeding_step ops rnd solver i s = Inr s' \<and> ?P s'" if "i < ?n" "?P s" for i s
  proof -
    obtain nx w0 where s: "s = (nx, w0)" by (cases s)
    obtain p1 w1 where p1: "pickRandomMember ops rnd solver w0 = Inr (p1, w1)"
      using pickRandomMember_returns[OF nz le, of ops rnd w0] by blast
    obtain p2 w2 where p2: "pickRandomMember ops rnd solver w1 = Inr (p2, w2)"
      using pickRandomMember_returns[OF nz le, of ops rnd w1] by blast
    obtain c w3 where c: "Crossover ops p1 p2 w2 = Inr (c, w3)" using X by blast
    obtain r w4 where r: "rnd w3 = (r, w4)" by (cases "rnd w3")
    obtain w5 where w5: "(if r < MutationChance (options solver) then Mutate ops c w4 else Inr w4) = Inr w5"
      using M by (cases "r < MutationChance (options solver)") auto
    show ?thesis
      using that unfolding breeding_step_def s by (simp add: p1 p2 c r w5)
  qed
  have "\<exists>s'. breeding_phase ops rnd batches solver w = Inr s' \<and> ?P s'"
    unfolding breeding_phase_def
  proof (rule foldM_returns[where P="?P"], simp)
    fix b s assume b: "b \<in> set batches" and Ps: "?P s"
    show "\<exists>s'. foldM (breeding_step ops rnd solver) (batch_indices b) s = Inr s' \<and> ?P s'"
    proof (rule foldM_returns[where P="?P"], fact Ps)
      fix i s assume i: "i \<in> set (batch_indices b)" and Ps: "?P s"
      have "i < ?n" by (rule batch_indices_lt[OF bw b i])
      then show "\<exists>s'. breeding_step ops rnd solver i s = Inr s' \<and> ?P s'" using Ps by (rule step)
    qed
  qed
  then show ?thesis by (metis fst_conv surj_pair)
qed

lemma getBestMember_returns:
  "population solver \<noteq> [] \<Longrightarrow> \<exists>m. getBestMember ops solver w = Inr m"
  by (cases "population solver") (simp_all add: getBestMember_def MaxFunc_def)

lemma batches_within_mono: "batches_within bs n \<Longrightarrow> n \<le> m \<Longrightarrow> batches_within bs m"
  by (auto simp: batches_within_def)

lemma Solve_loop_total:
  "never_panics ops \<Longrightarrow>
   batches_within batches (unat (PopulationSize (options solver))) \<Longrightarrow>
   solver_ok solver \<Longrightarrow>
   \<exists>r. Solve_loop ops rnd batches solver w n = Inr r \<and>
       iterations r = n + unat (MaxGenerations (options solver) - generationNo solver) + 1"
proof (induction ops rnd batches solver w n rule: Solve_loop.induct)
  case (1 ops rnd batches solver w n)
  note np = "1.prems"(1) and bw = "1.prems"(2) and ok = "1.prems"(3)
  let ?P = "PopulationSize (options solver)"
  have nz: "?P \<noteq> 0" and le: "unat ?P \<le> length (population solver)"
    using ok by (simp_all add: solver_ok_def)
  have bwl: "batches_within batches (length (population solver))"
    by (rule batches_within_mono[OF bw le])
  have ne: "population solver \<noteq> []"
    using nz le by (auto simp: unat_gt_0 dest!: unat_eq_zero[THEN iffD1, rotated])
  obtain w1 where d: "(if Speciation (options solver)
          then distance_phase ops batches (population solver) w else Inr w) = Inr w1"
    using distance_phase_returns[OF np bwl, of w] by (cases "Speciation (options solver)") auto
  obtain w2 fs where f: "fitness_phase ops batches (population solver) w1 = Inr (w2, fs)"
    using fitness_phase_returns[OF np bwl, of w1] by blast
  obtain shown where v: "(if Verbose (options solver) then getBestMember ops solver w2
          else Inr (zeroValue ops)) = Inr shown"
    using getBestMember_returns[OF ne, of ops w2] by (cases "Verbose (options solver)") auto
  show ?case
  proof (cases "generationNo solver = MaxGenerations (options solver)")
    case True
    obtain m where m: "getBestMember ops solver w2 = Inr m"
      using getBestMember_returns[OF ne, of ops w2] by blast
    show ?thesis
      by (subst Solve_loop.simps) (simp add: d f v True m)
  next
    case False
    obtain nx w4 where b: "breeding_phase ops rnd batches solver (survival_phase ops solver fs w2) = Inr (nx, w4)"
      and ln: "length nx = unat ?P"
      using breeding_phase_returns[OF np bw nz le, of rnd "survival_phase ops solver fs w2"] by blast
    let ?s = "solver\<lparr>population := nx, generationNo := generationNo solver + 1\<rparr>"
    have bw': "batches_within batches (unat (PopulationSize (options ?s)))" using bw by simp
    have ok': "solver_ok ?s" using nz ln by (simp add: solver_ok_def)
    obtain r where r: "Solve_loop ops rnd batches ?s w4 (Suc n) = Inr r"
      and it: "iterations r = Suc n + unat (MaxGenerations (options ?s) - generationNo ?s) + 1"
      using "1.IH"[OF d f refl v False b refl np bw' ok'] by blast
    let ?d = "MaxGenerations (options solver) - generationNo solver"
    have dnz: "?d \<noteq> 0" using False by simp
    have eq: "MaxGenerations (options solver) - (generationNo solver + 1) = ?d - 1" by simp
    have "unat (MaxGenerations (options solver) - (generationNo solver + 1)) = unat ?d - 1"
      unfolding eq using dnz by (simp add: unat_minus_one)
    moreover have "0 < unat ?d" using dnz by (simp add: unat_gt_0)
    ultimately have "iterations r = n + unat ?d + 1" using it by simp
    moreover have "Solve_loop ops rnd batches solver w n = Inr r"
      by (subst Solve_loop.simps) (simp add: d f v False b r)
    ultimately show ?thesis by blast
  qed
qed

lemma Solve_loop_result:
  "Solve_loop ops rnd batches solver w n = Inr r \<Longrightarrow>
   getBestMember ops (final_solver r) (final_world r) = Inr (best r) \<and>
   generationNo (final_solver r) = MaxGenerations (options solver) \<and>
   options (final_solver r) = options solver"
proof (induction ops rnd batches solver w n rule: Solve_loop.induct)
  case (1 ops rnd batches solver w n)
  from "1.prems" obtain w1 where d: "(if Speciation (options solver)
          then distance_phase ops batches (population solver) w else Inr w) = Inr w1"
    by (subst (asm) Solve_loop.simps) (auto split: sum.splits)
  from "1.prems" obtain w2 fs where f: "fitness_phase ops batches (population solver) w1 = Inr (w2, fs)"
    by (subst (asm) Solve_loop.simps) (auto simp: d split: sum.splits)
  from "1.prems" obtain shown where v: "(if Verbose (options solver) then getBestMember ops solver w2
          else Inr (zeroValue ops)) = Inr shown"
    by (subst (asm) Solve_loop.simps) (auto simp: d f split: sum.splits)
  show ?case
  proof (cases "generationNo solver = MaxGenerations (options solver)")
    case True
    with "1.prems" show ?thesis
      by (subst (asm) Solve_loop.simps) (auto simp: d f v split: sum.splits)
  next
    case False
    from "1.prems" obtain nx w4 where
      b: "breeding_phase ops rnd batches solver (survival_phase ops solver fs w2) = Inr (nx, w4)"
      by (subst (asm) Solve_loop.simps) (auto simp: d f v False split: sum.splits)
    let ?s = "solver\<lparr>population := nx, generationNo := generationNo solver + 1\<rparr>"
    have r: "Solve_loop ops rnd batches ?s w4 (Suc n) = Inr r"
      using "1.prems" by (subst (asm) Solve_loop.simps) (simp add: d f v False b)
    from "1.IH"[OF d f refl v False b refl r] show ?thesis by simp
  qed
qed

lemma Solve_loop_iterations:
  "Solve_loop ops rnd batches solver w n = Inr r \<Longrightarrow>
   iterations r = n + unat (MaxGenerations (options solver) - generationNo solver) + 1"
proof (induction ops rnd batches solver w n rule: Solve_loop.induct)
  case (1 ops rnd batches solver w n)
  from "1.prems" obtain w1 where d: "(if Speciation (options solver)
          then distance_phase ops batches (population solver) w else Inr w) = Inr w1"
    by (subst (asm) Solve_loop.simps) (auto split: sum.splits)
  from "1.prems" obtain w2 fs where f: "fitness_phase ops batches (population solver) w1 = Inr (w2, fs)"
    by (subst (asm) Solve_loop.simps) (auto simp: d split: sum.splits)
  from "1.prems" obtain shown where v: "(if Verbose (options solver) then getBestMember ops solver w2
          else Inr (zeroValue ops)) = Inr shown"
    by (subst (asm) Solve_loop.simps) (auto simp: d f split: sum.splits)
  show ?case
  proof (cases "generationNo solver = MaxGenerations (options solver)")
    case True
    with "1.prems" show ?thesis
      by (subst (asm) Solve_loop.simps) (auto simp: d f v split: sum.splits)
  next
    case False
    from "1.prems" obtain nx w4 where
      b: "breeding_phase ops rnd batches solver (survival_phase ops solver fs w2) = Inr (nx, w4)"
      by (subst (asm) Solve_loop.simps) (auto simp: d f v False split: sum.splits)
    let ?s = "solver\<lparr>population := nx, generationNo := generationNo solver + 1\<rparr>"
    have r: "Solve_loop ops rnd batches ?s w4 (Suc n) = Inr r"
      using "1.prems" by (subst (asm) Solve_loop.simps) (simp add: d f v False b)
    have it: "iterations r = Suc n + unat (MaxGenerations (options ?s) - generationNo ?s) + 1"
      by (rule "1.IH"[OF d f refl v False b refl r])
    let ?d = "MaxGenerations (options solver) - generationNo solver"
    have dnz: "?d \<noteq> 0" using False by simp
    have eq: "MaxGenerations (options solver) - (generationNo solver + 1) = ?d - 1" by simp
    have "unat (MaxGenerations (options solver) - (generationNo solver + 1)) = unat ?d - 1"
      unfolding eq using dnz by (simp add: unat_minus_one)
    moreover have "0 < unat ?d" using dnz by (simp add: unat_gt_0)
    ultimately show ?thesis using it by simp
  qed
qed

lemma BuildBatchesList_within:
  assumes ne: "nElements \<noteq> 0" and nb: "nBatches \<noteq> 0"
  shows "\<exists>batches. BuildBatchesList nElements nBatches = Inr batches \<and>
           batches_within batches (unat nElements)"
proof -
  let ?b = "unat nBatches" and ?N = "unat nElements" and ?B = "unat nElements div unat nBatches"
  let ?g = "\<lambda>i. \<lparr>Start = (of_nat (i * ?B) :: 32 word),
                 End = (if i = ?b - 1 then nElements else of_nat (Suc i * ?B))\<rparr>"
  have "unat (End (?g i)) \<le> ?N" if "i < ?b" for i
  proof (cases "i = ?b - 1")
    case True
    then show ?thesis by simp
  next
    case False
    have "Suc i * ?B \<le> ?b * ?B" using that by (intro mult_le_mono1) simp
    also have "\<dots> \<le> ?N" by simp
    finally have "Suc i * ?B \<le> ?N" .
    moreover have "unat (of_nat (Suc i * ?B) :: 32 word) \<le> Suc i * ?B" by (rule unat_of_nat_le)
    ultimately show ?thesis using False by (simp del: of_nat_mult of_nat_add mult_Suc)
  qed
  then have "batches_within (map ?g [0..<?b]) ?N"
    unfolding batches_within_def by (auto simp del: of_nat_mult of_nat_add mult_Suc)
  then show ?thesis
    unfolding BuildBatchesList_closed[OF ne nb] by blast
qed

lemma NewSolver_Inr:
  assumes "NewSolver members opts = Inr solver"
  shows "population solver = members" and "generationNo solver = 1"
    and "PopulationSize (options solver) = PopulationSize opts"
    and "MaxGenerations (options solver) = MaxGenerations opts"
    and "PopulationSize opts \<noteq> 0"
    and "of_nat (length members) = PopulationSize opts"
    and "NBatches (options solver) \<noteq> 0"
    and "NBatches (options solver) =
           (if NBatches opts = 0 then 1
            else if NBatches opts > PopulationSize opts then PopulationSize opts else NBatches opts)"
  using assms
  by (auto simp: NewSolver_def Let_def split: if_splits)

lemma NewSolver_solver_ok:
  assumes "NewSolver members opts = Inr solver"
  shows "solver_ok solver"
proof -
  have "unat (of_nat (length members) :: 32 word) \<le> length members" by (rule unat_of_nat_le)
  then show ?thesis
    unfolding solver_ok_def
    using NewSolver_Inr(1,3,5,6)[OF assms] by simp
qed

lemma unat_minus_one_plus_one:
  fixes m :: "32 word"
  shows "unat (m - 1) + 1 = (if m = 0 then 2 ^ 32 else unat m)"
proof (cases "m = 0")
  case True
  then show ?thesis by (simp add: unsigned_minus_1_eq_mask mask_eq_exp_minus_1)
next
  case False
  then have "0 < unat m" by (simp add: unat_gt_0)
  then show ?thesis using False by (simp add: unat_minus_one)
qed

lemma Solve_total:
  assumes new: "NewSolver members opts = Inr solver" and np: "never_panics ops"
  shows "\<exists>r. Solve ops rnd solver w = Inr r \<and>
           iterations r = (if MaxGenerations opts = 0 then 2 ^ 32 else unat (MaxGenerations opts))"
proof -
  have ok: "solver_ok solver" by (rule NewSolver_solver_ok[OF new])
  have nz: "PopulationSize (options solver) \<noteq> 0" using ok by (simp add: solver_ok_def)
  obtain batches where b: "BuildBatchesList (PopulationSize (options solver)) (NBatches (options solver)) = Inr batches"
    and bw: "batches_within batches (unat (PopulationSize (options solver)))"
    using BuildBatchesList_within[OF nz NewSolver_Inr(7)[OF new]] by blast
  obtain r where r: "Solve_loop ops rnd batches solver w 0 = Inr r"
    and it: "iterations r = 0 + unat (MaxGenerations (options solver) - generationNo solver) + 1"
    using Solve_loop_total[OF np bw ok, of rnd w 0] by blast
  have "iterations r = unat (MaxGenerations opts - 1) + 1"
    using it NewSolver_Inr(2,4)[OF new] by simp
  then have "iterations r = (if MaxGenerations opts = 0 then 2 ^ 32 else unat (MaxGenerations opts))"
    by (simp only: unat_minus_one_plus_one)
  moreover have "Solve ops rnd solver w = Inr r" by (simp add: Solve_def b r)
  ultimately show ?thesis by blast
qed

text \<open>
  Claim C1. Let \<open>solver\<close> be built by \<^verbatim>\<open>NewSolver\<close>. If no method of the members panics,
  \<^verbatim>\<open>Solve\<close> returns. Whenever it returns, the solver is at generation \<open>MaxGenerations\<close>
  (after \<open>MaxGenerations\<close> iterations, when that is at least 1), and the member returned
  is the one at the first position of that generation's population whose fitness score
  is maximal: no member of the population has a greater score, and every earlier member
  has a strictly smaller one.
\<close>

theorem Solve_returns_first_best:
  assumes new: "NewSolver members opts = Inr solver"
  shows "(never_panics ops \<longrightarrow> returns (Solve ops rnd solver w)) \<and>
         (\<forall>r. Solve ops rnd solver w = Inr r \<longrightarrow>
            generationNo (final_solver r) = MaxGenerations opts \<and>
            (MaxGenerations opts \<noteq> 0 \<longrightarrow> iterations r = unat (MaxGenerations opts)) \<and>
            (\<exists>i. first_max (\<lambda>m. unat (GetFitnessScore ops m (final_world r)))
                    (population (final_solver r)) i \<and>
                 best r = population (final_solver r) ! i))"
proof (intro conjI impI allI)
  assume "never_panics ops"
  from Solve_total[OF new this, of rnd w] show "returns (Solve ops rnd solver w)"
    by (auto simp: returns_def)
next
  fix r assume r: "Solve ops rnd solver w = Inr r"
  then obtain batches where lp: "Solve_loop ops rnd batches solver w 0 = Inr r"
    by (auto simp: Solve_def split: sum.splits)
  note res = Solve_loop_result[OF lp]
  show "generationNo (final_solver r) = MaxGenerations opts"
    using res NewSolver_Inr(4)[OF new] by simp
  have it: "iterations r = unat (MaxGenerations opts - 1) + 1"
    using Solve_loop_iterations[OF lp] NewSolver_Inr(2,4)[OF new] by simp
  show "iterations r = unat (MaxGenerations opts)" if "MaxGenerations opts \<noteq> 0"
    using it that by (simp only: unat_minus_one_plus_one if_False)
  have cmp: "cmpFitness ops (final_world r) x y > 0 \<longleftrightarrow>
        unat (GetFitnessScore ops y (final_world r)) < unat (GetFitnessScore ops x (final_world r))" for x y
    by (simp add: cmpFitness_pos word_less_nat_alt)
  have "MaxFunc (population (final_solver r)) (cmpFitness ops (final_world r)) = Inr (best r)"
    using res by (simp add: getBestMember_def)
  from MaxFunc_first_max[where f="\<lambda>m. unat (GetFitnessScore ops m (final_world r))", OF cmp this]
  show "\<exists>i. first_max (\<lambda>m. unat (GetFitnessScore ops m (final_world r)))
                    (population (final_solver r)) i \<and>
                 best r = population (final_solver r) ! i" .
qed

lemma never_panics_gene_Member: "never_panics gene_Member"
  by (simp add: never_panics_def gene_Member_def returns_def)

theorem Solve_returns_first_best_witness:
  "NewSolver [0::nat, 1, 2]
     \<lparr>PopulationSize = 3, MaxGenerations = 1, MutationChance = 0, NBatches = 2,
      Speciation = False, Verbose = False\<rparr> =
   Inr \<lparr>population = [0, 1, 2],
        options = \<lparr>PopulationSize = 3, MaxGenerations = 1, MutationChance = 0, NBatches = 2,
                   Speciation = False, Verbose = False\<rparr>,
        generationNo = 1\<rparr> \<and>
   returns (Solve gene_Member gene_draw
     \<lparr>population = [0, 1, 2],
      options = \<lparr>PopulationSize = 3, MaxGenerations = 1, MutationChance = 0, NBatches = 2,
                 Speciation = False, Verbose = False\<rparr>,
      generationNo = 1\<rparr> (gene_world_of [3, 7, 7] [])) \<and>
   (case Solve gene_Member gene_draw
     \<lparr>population = [0, 1, 2],
      options = \<lparr>PopulationSize = 3, MaxGenerations = 1, MutationChance = 0, NBatches = 2,
                 Speciation = False, Verbose = False\<rparr>,
      generationNo = 1\<rparr> (gene_world_of [3, 7, 7] []) of
      Inl e \<Rightarrow> False | Inr r \<Rightarrow> best r = 1)"
proof -
  let ?opts = "\<lparr>PopulationSize = 3, MaxGenerations = 1, MutationChance = 0, NBatches = 2,
                Speciation = False, Verbose = False\<rparr>"
  let ?s = "\<lparr>population = [0::nat, 1, 2], options = ?opts, generationNo = 1\<rparr>"
  have new: "NewSolver [0::nat, 1, 2] ?opts = Inr ?s"
    by (simp add: NewSolver_def)
  have "returns (Solve gene_Member gene_draw ?s (gene_world_of [3, 7, 7] []))"
    using Solve_returns_first_best[OF new, of gene_Member gene_draw "gene_world_of [3, 7, 7] []"]
      never_panics_gene_Member by blast
  moreover have "(case Solve gene_Member gene_draw ?s (gene_world_of [3, 7, 7] []) of
      Inl e \<Rightarrow> False | Inr r \<Rightarrow> best r = 1)"
    by code_simp
  ultimately show ?thesis using new by blast
qed

text \<open>
  Claim C5, at \<open>MaxGenerations = 0\<close>. The loop compares the generation number, which
  starts at 1, with \<open>MaxGenerations\<close> for equality after each evaluation, so with
  \<open>MaxGenerations = 0\<close> it stops only when the 32-bit counter has wrapped around to 0:
  the call returns after \<open>2 ^ 32\<close> iterations, not after none. (\<open>Solve_total\<close>: with
  \<open>MaxGenerations \<ge> 1\<close> the iterations are \<open>MaxGenerations\<close>.)
\<close>

theorem Solve_MaxGenerations_zero:
  "NewSolver [0::nat]
     \<lparr>PopulationSize = 1, MaxGenerations = 0, MutationChance = 0, NBatches = 1,
      Speciation = False, Verbose = False\<rparr> =
   Inr \<lparr>population = [0],
        options = \<lparr>PopulationSize = 1, MaxGenerations = 0, MutationChance = 0, NBatches = 1,
                   Speciation = False, Verbose = False\<rparr>,
        generationNo = 1\<rparr> \<and>
   (\<exists>r. Solve gene_Member gene_draw
          \<lparr>population = [0],
           options = \<lparr>PopulationSize = 1, MaxGenerations = 0, MutationChance = 0, NBatches = 1,
                      Speciation = False, Verbose = False\<rparr>,
           generationNo = 1\<rparr> (gene_world_of [5] []) = Inr r \<and>
        iterations r = 2 ^ 32)"
proof -
  let ?opts = "\<lparr>PopulationSize = 1, MaxGenerations = 0, MutationChance = 0, NBatches = 1,
                Speciation = False, Verbose = False\<rparr>"
  let ?s = "\<lparr>population = [0::nat], options = ?opts, generationNo = 1\<rparr>"
  have new: "NewSolver [0::nat] ?opts = Inr ?s"
    by (simp add: NewSolver_def)
  show ?thesis
    using new Solve_total[OF new never_panics_gene_Member, of gene_draw "gene_world_of [5] []"]
    by simp
qed

text \<open>
  Claim C4, where the sum of the scores passes \<open>2 ^ 32\<close>. The first generation of a run
  with two members of fitness \<open>2 ^ 31\<close> and \<open>2 ^ 31 + 256\<close>: the 32-bit accumulator of the
  fitness phase ends at 256, and the survival phase assigns the chances \<open>2 ^ 23\<close> and
  \<open>2 ^ 23 + 1\<close>, whose sum is not 1. (Every number here is a \<^verbatim>\<open>float32\<close> value, so the
  floating-point divisions of the source are exact on this input.)
\<close>

theorem survival_chances_after_overflow:
  "NewSolver [0::nat, 1]
     \<lparr>PopulationSize = 2, MaxGenerations = 2, MutationChance = 0, NBatches = 1,
      Speciation = False, Verbose = False\<rparr> =
   Inr \<lparr>population = [0, 1],
        options = \<lparr>PopulationSize = 2, MaxGenerations = 2, MutationChance = 0, NBatches = 1,
                   Speciation = False, Verbose = False\<rparr>,
        generationNo = 1\<rparr> \<and>
   BuildBatchesList 2 1 = Inr [\<lparr>Start = 0, End = 2\<rparr>] \<and>
   fitness_phase gene_Member [\<lparr>Start = 0, End = 2\<rparr>] [0, 1]
       (gene_world_of [2147483648, 2147483904] []) =
     Inr (\<lparr>objects = [\<lparr>FitnessScore = 2147483648, SurvivalChance = 0, gene = 2147483648\<rparr>,
                     \<lparr>FitnessScore = 2147483904, SurvivalChance = 0, gene = 2147483904\<rparr>],
           draws = []\<rparr>, 256) \<and>
   map SurvivalChance (objects (survival_phase gene_Member
       \<lparr>population = [0, 1],
        options = \<lparr>PopulationSize = 2, MaxGenerations = 2, MutationChance = 0, NBatches = 1,
                   Speciation = False, Verbose = False\<rparr>,
        generationNo = 1\<rparr> 256
       \<lparr>objects = [\<lparr>FitnessScore = 2147483648, SurvivalChance = 0, gene = 2147483648\<rparr>,
                   \<lparr>FitnessScore = 2147483904, SurvivalChance = 0, gene = 2147483904\<rparr>],
        draws = []\<rparr>)) = [8388608, 8388609] \<and>
   sum_list [8388608, 8388609 :: rat] \<noteq> 1"
proof (intro conjI)
  show "NewSolver [0::nat, 1]
     \<lparr>PopulationSize = 2, MaxGenerations = 2, MutationChance = 0, NBatches = 1,
      Speciation = False, Verbose = False\<rparr> =
   Inr \<lparr>population = [0, 1],
        options = \<lparr>PopulationSize = 2, MaxGenerations = 2, MutationChance = 0, NBatches = 1,
                   Speciation = False, Verbose = False\<rparr>,
        generationNo = 1\<rparr>"
    by (simp add: NewSolver_def)
  show "BuildBatchesList 2 1 = Inr [\<lparr>Start = 0, End = 2\<rparr>]"
    by code_simp
  show "fitness_phase gene_Member [\<lparr>Start = 0, End = 2\<rparr>] [0, 1]
       (gene_world_of [2147483648, 2147483904] []) =
     Inr (\<lparr>objects = [\<lparr>FitnessScore = 2147483648, SurvivalChance = 0, gene = 2147483648\<rparr>,
                     \<lparr>FitnessScore = 2147483904, SurvivalChance = 0, gene = 2147483904\<rparr>],
           draws = []\<rparr>, 256)"
    by (simp add: fitness_phase_def fitness_step_def gene_Member_def gene_at_def gene_put_def
        gene_world_of_def batch_indices_def index_def upt_rec)
  show "map SurvivalChance (objects (survival_phase gene_Member
       \<lparr>population = [0, 1],
        options = \<lparr>PopulationSize = 2, MaxGenerations = 2, MutationChance = 0, NBatches = 1,
                   Speciation = False, Verbose = False\<rparr>,
        generationNo = 1\<rparr> 256
       \<lparr>objects = [\<lparr>FitnessScore = 2147483648, SurvivalChance = 0, gene = 2147483648\<rparr>,
                   \<lparr>FitnessScore = 2147483904, SurvivalChance = 0, gene = 2147483904\<rparr>],
        draws = []\<rparr>)) = [8388608, 8388609]"
    by (simp add: survival_phase_def survival_step_def gene_Member_def gene_at_def gene_put_def)
  show "sum_list [8388608, 8388609 :: rat] \<noteq> 1" by simp
qed


lemma NewSolver_panics_iff:
  "(\<exists>e. NewSolver members opts = Inl e) \<longleftrightarrow>
     PopulationSize opts = 0 \<or> (of_nat (length members) :: 32 word) \<noteq> PopulationSize opts"
  and "length members < 2 ^ 32 \<Longrightarrow>
     (\<exists>e. NewSolver members opts = Inl e) \<longleftrightarrow>
       PopulationSize opts = 0 \<or> length members \<noteq> unat (PopulationSize opts)"
  and "NewSolver members opts = Inr solver \<Longrightarrow>
     1 \<le> NBatches (options solver) \<and> NBatches (options solver) \<le> PopulationSize opts \<and>
     NBatches (options solver) = max 1 (min (NBatches opts) (PopulationSize opts))"
proof -
  show a: "(\<exists>e. NewSolver members opts = Inl e) \<longleftrightarrow>
     PopulationSize opts = 0 \<or> (of_nat (length members) :: 32 word) \<noteq> PopulationSize opts"
    by (auto simp: NewSolver_def Let_def)
  show "(\<exists>e. NewSolver members opts = Inl e) \<longleftrightarrow>
       PopulationSize opts = 0 \<or> length members \<noteq> unat (PopulationSize opts)"
    if "length members < 2 ^ 32"
  proof -
    have "unat (of_nat (length members) :: 32 word) = length members"
      using that by (simp add: unat_of_nat)
    then have "(of_nat (length members) :: 32 word) = PopulationSize opts \<longleftrightarrow>
               length members = unat (PopulationSize opts)"
      by (metis of_nat_unat ucast_id)
    then show ?thesis unfolding a by simp
  qed
  show "1 \<le> NBatches (options solver) \<and> NBatches (options solver) \<le> PopulationSize opts \<and>
     NBatches (options solver) = max 1 (min (NBatches opts) (PopulationSize opts))"
    if "NewSolver members opts = Inr solver"
  proof -
    have p: "PopulationSize opts \<noteq> 0" by (rule NewSolver_Inr(5)[OF that])
    then have p1: "1 \<le> PopulationSize opts" by (simp add: word_le_nat_alt unat_gt_0 Suc_le_eq)
    have nz: "Suc 0 \<le> unat x" if "x \<noteq> 0" for x :: "32 word"
      using that by (simp add: Suc_le_eq unat_gt_0)
    show ?thesis
      unfolding NewSolver_Inr(8)[OF that] using p1 nz[of "NBatches opts"]
      by (auto simp: word_le_nat_alt word_less_nat_alt max_def min_def unat_gt_0 unat_eq_zero)
  qed
qed

text \<open>
  Claim C9, for a population of \<open>2 ^ 32\<close> members or more. \<^verbatim>\<open>NewSolver\<close> compares
  \<^verbatim>\<open>uint32(len(members))\<close> with the population size: a slice of \<open>2 ^ 32 + 1\<close> members
  passes the check against \<open>PopulationSize = 1\<close>, and a solver is returned although the
  length differs from the population size. (\<open>NewSolver_panics_iff\<close> is the exact
  condition, and the claim's for a slice shorter than \<open>2 ^ 32\<close>.)
\<close>

theorem NewSolver_length_wraps:
  "NewSolver (replicate (2 ^ 32 + 1) (0::nat))
     \<lparr>PopulationSize = 1, MaxGenerations = 1, MutationChance = 0, NBatches = 1,
      Speciation = False, Verbose = False\<rparr> =
   Inr \<lparr>population = replicate (2 ^ 32 + 1) 0,
        options = \<lparr>PopulationSize = 1, MaxGenerations = 1, MutationChance = 0, NBatches = 1,
                   Speciation = False, Verbose = False\<rparr>,
        generationNo = 1\<rparr> \<and>
   length (replicate (2 ^ 32 + 1) (0::nat)) \<noteq> unat (1 :: 32 word)"
proof -
  have "(of_nat (length (replicate (2 ^ 32 + 1) (0::nat))) :: 32 word) = 1"
    by (simp only: length_replicate) simp
  then have "NewSolver (replicate (2 ^ 32 + 1) (0::nat))
     \<lparr>PopulationSize = 1, MaxGenerations = 1, MutationChance = 0, NBatches = 1,
      Speciation = False, Verbose = False\<rparr> =
   Inr \<lparr>population = replicate (2 ^ 32 + 1) 0,
        options = \<lparr>PopulationSize = 1, MaxGenerations = 1, MutationChance = 0, NBatches = 1,
                   Speciation = False, Verbose = False\<rparr>,
        generationNo = 1\<rparr>"
    unfolding NewSolver_def by (simp del: length_replicate)
  moreover have "length (replicate (2 ^ 32 + 1) (0::nat)) \<noteq> unat (1 :: 32 word)"
    by (simp only: length_replicate) simp
  ultimately show ?thesis by (rule conjI)
qed

section \<open>Verification: networks\<close>

lemma deref_Some: "deref w (Some a) = Inr n \<longleftrightarrow> a < length (heap w) \<and> heap w ! a = n"
  by (auto simp: deref_def)

lemma deref_InrE:
  assumes "deref w p = Inr n"
  obtains a where "p = Some a" "a < length (heap w)" "heap w ! a = n"
  using assms by (cases p) (auto simp: deref_def split: if_splits)

lemma deref_store:
  "deref (store p n w) x =
     (if x = p then (case deref w x of Inl e \<Rightarrow> Inl e | Inr n0 \<Rightarrow> Inr n) else deref w x)"
  by (cases p; cases x) (auto simp: deref_def store_def)

lemma store_frame [simp]:
  "innovationNoTracker (store p n w) = innovationNoTracker w"
  "mutationHistory (store p n w) = mutationHistory w"
  "testSet (store p n w) = testSet w"
  "rand_floats (store p n w) = rand_floats w"
  "rand_ints (store p n w) = rand_ints w"
  "length (heap (store p n w)) = length (heap w)"
  by (cases p; simp add: store_def)+

lemma deref_sort_connections:
  "deref (sort_connections pdqsort p w) x =
     (if x = p then (case deref w x of Inl e \<Rightarrow> Inl e | Inr n \<Rightarrow> Inr (sort_once pdqsort n)) else deref w x)"
  by (cases "deref w p") (auto simp: sort_connections_def deref_store)

lemma sort_connections_frame [simp]:
  "innovationNoTracker (sort_connections pdqsort p w) = innovationNoTracker w"
  "mutationHistory (sort_connections pdqsort p w) = mutationHistory w"
  "testSet (sort_connections pdqsort p w) = testSet w"
  "rand_floats (sort_connections pdqsort p w) = rand_floats w"
  "rand_ints (sort_connections pdqsort p w) = rand_ints w"
  "length (heap (sort_connections pdqsort p w)) = length (heap w)"
  by (cases "deref w p"; simp add: sort_connections_def)+

lemma mset_ins_rev: "mset (ins_rev cmp x ys) = add_mset x (mset ys)"
  by (induction ys) simp_all

lemma mset_foldl_ins_rev: "mset (foldl (\<lambda>acc x. ins_rev cmp x acc) acc xs) = mset acc + mset xs"
  by (induction xs arbitrary: acc) (simp_all add: mset_ins_rev)

lemma mset_insertionSort: "mset (insertionSort xs cmp) = mset xs"
  by (simp add: insertionSort_def mset_foldl_ins_rev)

lemma mset_SortFunc: "sorter_permutes pdqsort \<Longrightarrow> mset (SortFunc pdqsort xs cmp) = mset xs"
  by (simp add: SortFunc_def mset_insertionSort sorter_permutes_def)

lemma SortFunc_Nil [simp]: "SortFunc pdqsort [] cmp = []"
  by (simp add: SortFunc_def insertionSort_def)

lemma sort_once_facts:
  "nodes (sort_once pdqsort n) = nodes n"
  "FitnessScore (sort_once pdqsort n) = FitnessScore n"
  "SurvivalChance (sort_once pdqsort n) = SurvivalChance n"
  "nInputs (sort_once pdqsort n) = nInputs n"
  "nOutputs (sort_once pdqsort n) = nOutputs n"
  "nSimilar (sort_once pdqsort n) = nSimilar n"
  "sorted_flag (sort_once pdqsort n)"
  "sorted_flag n \<Longrightarrow> sort_once pdqsort n = n"
  by (simp_all add: sort_once_def)

lemma mset_sort_once:
  "sorter_permutes pdqsort \<Longrightarrow> mset (connections (sort_once pdqsort n)) = mset (connections n)"
  by (simp add: sort_once_def mset_SortFunc)

lemma sort_once_idem [simp]: "sort_once pdqsort (sort_once pdqsort n) = sort_once pdqsort n"
  by (simp add: sort_once_def)

lemma sort_once_empty: "connections n = [] \<Longrightarrow> connections (sort_once pdqsort n) = []"
  by (simp add: sort_once_def)

lemma Float32_frame:
  "Float32 w = (r, w') \<Longrightarrow>
   heap w' = heap w \<and> innovationNoTracker w' = innovationNoTracker w \<and>
   mutationHistory w' = mutationHistory w \<and> testSet w' = testSet w \<and> rand_ints w' = rand_ints w"
  by (auto simp: Float32_def split: list.splits)

lemma crossover_loop_frame:
  "crossover_loop cs ds is acc w = (res, w') \<Longrightarrow>
   heap w' = heap w \<and> innovationNoTracker w' = innovationNoTracker w \<and>
   mutationHistory w' = mutationHistory w \<and> testSet w' = testSet w \<and> rand_ints w' = rand_ints w"
proof (induction cs ds "is" acc w rule: crossover_loop.induct)
  case (1 cs ds acc w)
  then show ?case by simp
next
  case (2 cs ds i "is" acc w)
  show ?case
  proof (cases "i \<ge> length cs")
    case True
    then show ?thesis using "2.prems" by simp
  next
    case False
    note nc = False
    show ?thesis
    proof (cases "i \<ge> length ds")
      case True
      then show ?thesis using "2.prems" "2.IH"(1) nc by simp
    next
      case False
      obtain r w1 where f: "Float32 w = (r, w1)" by (cases "Float32 w")
      note fr = Float32_frame[OF f]
      show ?thesis
      proof (cases "r < 1 / 2")
        case True
        have "crossover_loop cs ds is (acc @ [cs ! i]) w1 = (res, w')"
          using "2.prems" nc False f True by simp
        from "2.IH"(2)[OF nc False f[symmetric] True this] fr show ?thesis by simp
      next
        case F: False
        have "crossover_loop cs ds is (acc @ [ds ! i]) w1 = (res, w')"
          using "2.prems" nc False f F by simp
        from "2.IH"(3)[OF nc False f[symmetric] F this] fr show ?thesis by simp
      qed
    qed
  qed
qed

lemma Crossover_effect:
  assumes p: "deref w p = Inr net" and q: "deref w q = Inr other"
  shows "\<exists>w'. Network_Crossover pdqsort p q w = Inr (Some (length (heap w)), w') \<and>
           length (heap w') = Suc (length (heap w)) \<and>
           deref w' p = Inr (sort_once pdqsort net) \<and>
           deref w' q = Inr (sort_once pdqsort other) \<and>
           (\<forall>x. x \<noteq> p \<and> x \<noteq> q \<and> x \<noteq> Some (length (heap w)) \<longrightarrow> deref w' x = deref w x) \<and>
           innovationNoTracker w' = innovationNoTracker w \<and>
           mutationHistory w' = mutationHistory w \<and>
           testSet w' = testSet w \<and>
           (\<exists>child. deref w' (Some (length (heap w))) = Inr child \<and>
              nodes child = copy_slice (new_nodes (nInputs net) (nOutputs net)) (nodes net))"
proof -
  let ?c = "Some (length (heap w))"
  let ?fresh = "\<lparr>FitnessScore = 0, SurvivalChance = 0,
                  nodes = new_nodes (nInputs net) (nOutputs net), connections = [],
                  nInputs = nInputs net, nOutputs = nOutputs net, nSimilar = 0, sorted_flag = False\<rparr>"
  let ?w1 = "w\<lparr>heap := heap w @ [?fresh]\<rparr>"
  let ?w2 = "sort_connections pdqsort p ?w1"
  let ?w3 = "sort_connections pdqsort q ?w2"
  obtain a where a: "p = Some a" "a < length (heap w)" "heap w ! a = net"
    using p by (rule deref_InrE)
  obtain b where b: "q = Some b" "b < length (heap w)" "heap w ! b = other"
    using q by (rule deref_InrE)
  have cp: "?c \<noteq> p" and cq: "?c \<noteq> q" using a b by auto
  have new: "NewNetwork (nInputs net) (nOutputs net) w = (?c, ?w1)"
    by (simp add: NewNetwork_def)
  have d1: "deref ?w1 x = (if x = ?c then Inr ?fresh else deref w x)" for x
    by (cases x) (auto simp: deref_def nth_append)
  have d3p: "deref ?w3 p = Inr (sort_once pdqsort net)"
    using p q cp cq by (auto simp: deref_sort_connections d1)
  have d3q: "deref ?w3 q = Inr (sort_once pdqsort other)"
    using p q cp cq by (auto simp: deref_sort_connections d1)
  have d3c: "deref ?w3 ?c = Inr ?fresh"
    using cp cq by (simp add: deref_sort_connections d1)
  have d3x: "deref ?w3 x = deref w x" if "x \<noteq> p" "x \<noteq> q" "x \<noteq> ?c" for x
    using that by (simp add: deref_sort_connections d1)
  obtain cs w4 where lp: "crossover_loop (connections (sort_once pdqsort net)) (connections (sort_once pdqsort other))
        [0..<max (length (connections net)) (length (connections other))] (connections ?fresh) ?w3 = (cs, w4)"
    by (metis surj_pair)
  note fr = crossover_loop_frame[OF lp]
  have d4: "deref w4 x = deref ?w3 x" for x
    using fr by (cases x) (simp_all add: deref_def)
  let ?child = "?fresh\<lparr>connections := cs, nodes := copy_slice (nodes ?fresh) (nodes (sort_once pdqsort net))\<rparr>"
  let ?w' = "store ?c ?child w4"
  have res: "Network_Crossover pdqsort p q w = Inr (?c, ?w')"
    unfolding Network_Crossover_def
    by (simp only: p q new sum.case prod.case Let_def d3p d3q d3c lp)
  have len: "length (heap ?w') = Suc (length (heap w))"
    using fr by simp
  have dp: "deref ?w' p = Inr (sort_once pdqsort net)"
    using cp by (simp add: deref_store d4 d3p)
  have dq: "deref ?w' q = Inr (sort_once pdqsort other)"
    using cq by (simp add: deref_store d4 d3q)
  have dx: "deref ?w' x = deref w x" if "x \<noteq> p \<and> x \<noteq> q \<and> x \<noteq> ?c" for x
    using that by (simp add: deref_store d4 d3x)
  have dc: "deref ?w' ?c = Inr ?child"
    by (simp add: deref_store d4 d3c)
  have nodes: "nodes ?child = copy_slice (new_nodes (nInputs net) (nOutputs net)) (nodes net)"
    by (simp add: sort_once_facts)
  have frame: "innovationNoTracker ?w' = innovationNoTracker w"
    "mutationHistory ?w' = mutationHistory w" "testSet ?w' = testSet w"
    using fr by simp_all
  show ?thesis
    using res len dp dq dx dc nodes frame by blast
qed

lemma deref_sort2:
  assumes p: "deref w p = Inr net" and q: "deref w q = Inr other"
  shows "deref (sort_connections pdqsort q (sort_connections pdqsort p w)) p = Inr (sort_once pdqsort net)"
    and "deref (sort_connections pdqsort q (sort_connections pdqsort p w)) q = Inr (sort_once pdqsort other)"
    and "x \<noteq> p \<Longrightarrow> x \<noteq> q \<Longrightarrow> deref (sort_connections pdqsort q (sort_connections pdqsort p w)) x = deref w x"
proof -
  have 1: "deref (sort_connections pdqsort p w) p = Inr (sort_once pdqsort net)"
    by (simp add: deref_sort_connections p)
  show "deref (sort_connections pdqsort q (sort_connections pdqsort p w)) p = Inr (sort_once pdqsort net)"
  proof (cases "p = q")
    case True
    then show ?thesis using p q by (simp add: deref_sort_connections)
  next
    case False
    then show ?thesis by (simp add: deref_sort_connections[of _ q] 1)
  qed
  show "deref (sort_connections pdqsort q (sort_connections pdqsort p w)) q = Inr (sort_once pdqsort other)"
  proof (cases "p = q")
    case True
    then show ?thesis using p q by (simp add: deref_sort_connections)
  next
    case False
    then have "deref (sort_connections pdqsort p w) q = Inr other"
      by (simp add: deref_sort_connections[of _ p] q)
    then show ?thesis by (simp add: deref_sort_connections[of _ q])
  qed
  show "deref (sort_connections pdqsort q (sort_connections pdqsort p w)) x = deref w x" if "x \<noteq> p" "x \<noteq> q"
    using that by (simp add: deref_sort_connections)
qed

lemma Distance_no_connections:
  assumes p: "deref w p = Inr net" and q: "deref w q = Inr other"
    and cn: "connections net = []" and co: "connections other = []"
  shows "Network_Distance pdqsort p q w = Inr (1, sort_connections pdqsort q (sort_connections pdqsort p w))"
proof -
  let ?w2 = "sort_connections pdqsort q (sort_connections pdqsort p w)"
  note n' = deref_sort2(1)[OF p q] and o' = deref_sort2(2)[OF p q]
  have cn': "connections (sort_once pdqsort net) = []" and co': "connections (sort_once pdqsort other) = []"
    using cn co by (simp_all add: sort_once_empty)
  have loop: "foldl (distance_step (connections (sort_once pdqsort net)) (connections (sort_once pdqsort other)))
                (0, 0, 0, 0) [0..<Suc 0] = (0, 1, 0, 0)"
    by (simp add: distance_step_def cn' co')
  show ?thesis
    unfolding Network_Distance_def
    by (simp add: p q cn co Let_def n' o' loop del: upt_Suc)
qed

lemma Distance_fresh_population:
  assumes I: "fresh_population pop w" and p: "p \<in> set pop" and q: "q \<in> set pop"
  shows "\<exists>w'. Distance (Network_Member lib conv pdqsort) p q w = Inr w' \<and> fresh_population pop w'"
proof -
  obtain net where n: "deref w p = Inr net" "connections net = []" "nSimilar net = 0"
    using I p by (auto simp: fresh_population_def)
  obtain other where ot: "deref w q = Inr other" "connections other = []" "nSimilar other = 0"
    using I q by (auto simp: fresh_population_def)
  let ?w2 = "sort_connections pdqsort q (sort_connections pdqsort p w)"
  have d: "Distance (Network_Member lib conv pdqsort) p q w = Inr ?w2"
    by (simp add: Network_Member_def Distance_no_connections[OF n(1) ot(1) n(2) ot(2)])
  have "fresh_population pop ?w2"
    unfolding fresh_population_def
  proof (intro conjI ballI)
    show "mutationHistory ?w2 = None" using I by (simp add: fresh_population_def)
    show "testSet ?w2 = []" using I by (simp add: fresh_population_def)
    fix x assume "x \<in> set pop"
    then obtain nx where nx: "deref w x = Inr nx" "connections nx = []" "nSimilar nx = 0"
      using I by (auto simp: fresh_population_def)
    consider "x = p" | "x = q" | "x \<noteq> p" "x \<noteq> q" by blast
    then show "\<exists>net. deref ?w2 x = Inr net \<and> connections net = [] \<and> nSimilar net = 0"
    proof cases
      case 1
      then show ?thesis
        using deref_sort2(1)[OF n(1) ot(1)] n by (simp add: sort_once_empty sort_once_facts)
    next
      case 2
      then show ?thesis
        using deref_sort2(2)[OF n(1) ot(1)] ot by (simp add: sort_once_empty sort_once_facts)
    next
      case 3
      then show ?thesis
        using deref_sort2(3)[OF n(1) ot(1), of x] nx by simp
    qed
  qed
  then show ?thesis using d by blast
qed

lemma distance_phase_fresh_population:
  assumes I: "fresh_population pop w" and bw: "batches_within batches (length pop)"
  shows "\<exists>w'. distance_phase (Network_Member lib conv pdqsort) batches pop w = Inr w' \<and> fresh_population pop w'"
  unfolding distance_phase_def
proof (rule foldM_returns[where P="fresh_population pop"], fact I)
  fix b s assume b: "b \<in> set batches" and Is: "fresh_population pop s"
  show "\<exists>s'. foldM (\<lambda>i. foldM (\<lambda>j w'. case index pop i of Inl e \<Rightarrow> Inl e
              | Inr mi \<Rightarrow> Distance (Network_Member lib conv pdqsort) mi (pop ! j) w') [0..<length pop])
            (batch_indices b) s = Inr s' \<and> fresh_population pop s'"
  proof (rule foldM_returns[where P="fresh_population pop"], fact Is)
    fix i s assume i: "i \<in> set (batch_indices b)" and Is: "fresh_population pop s"
    have il: "i < length pop" by (rule batch_indices_lt[OF bw b i])
    show "\<exists>s'. foldM (\<lambda>j w'. case index pop i of Inl e \<Rightarrow> Inl e
              | Inr mi \<Rightarrow> Distance (Network_Member lib conv pdqsort) mi (pop ! j) w') [0..<length pop] s = Inr s' \<and>
            fresh_population pop s'"
    proof (rule foldM_returns[where P="fresh_population pop"], fact Is)
      fix j s assume j: "j \<in> set [0..<length pop]" and Is: "fresh_population pop s"
      have "pop ! i \<in> set pop" "pop ! j \<in> set pop" using il j by simp_all
      from Distance_fresh_population[OF Is this]
      show "\<exists>s'. (case index pop i of Inl e \<Rightarrow> Inl e
              | Inr mi \<Rightarrow> Distance (Network_Member lib conv pdqsort) mi (pop ! j) s) = Inr s' \<and>
            fresh_population pop s'"
        using il by (simp add: index_def)
    qed
  qed
qed

lemma new_members_eq:
  "new_members k nIn nOut ms w =
     (ms @ map Some [length (heap w)..<length (heap w) + k],
      w\<lparr>heap := heap w @ replicate k
          \<lparr>FitnessScore = 0, SurvivalChance = 0, nodes = new_nodes nIn nOut, connections = [],
           nInputs = nIn, nOutputs = nOut, nSimilar = 0, sorted_flag = False\<rparr>\<rparr>)"
proof (induction k arbitrary: ms w)
  case 0
  then show ?case by simp
next
  case (Suc k)
  show ?case
    by (simp add: NewNetwork_def Suc.IH upt_rec[of "length (heap w)"] replicate_app_Cons_same)
qed

lemma NEAT_NewSolver_fresh:
  assumes nz: "PopulationSize opts \<noteq> 0" 
    and mh: "mutationHistory w = None" and ts: "testSet w = []"
  shows "\<exists>solver w0. NEAT_NewSolver nIn nOut opts w = Inr (solver, w0) \<and>
           NewSolver (population solver) (opts\<lparr>Speciation := True\<rparr>) = Inr solver \<and>
           length (population solver) = unat (PopulationSize opts) \<and>
           fresh_population (population solver) w0"
proof -
  let ?k = "unat (PopulationSize opts)"
  let ?fresh = "\<lparr>FitnessScore = 0, SurvivalChance = 0, nodes = new_nodes nIn nOut, connections = [],
           nInputs = nIn, nOutputs = nOut, nSimilar = 0, sorted_flag = False\<rparr>"
  let ?ms = "map Some [length (heap w)..<length (heap w) + ?k]"
  let ?w0 = "w\<lparr>heap := heap w @ replicate ?k ?fresh\<rparr>"
  have nm: "new_members ?k nIn nOut [] w = (?ms, ?w0)"
    by (simp add: new_members_eq)
  have len: "(of_nat (length ?ms) :: 32 word) = PopulationSize opts" by simp
  obtain solver where s: "NewSolver ?ms (opts\<lparr>Speciation := True\<rparr>) = Inr solver"
    using nz len by (simp add: NewSolver_def Let_def)
  have pop: "population solver = ?ms" by (rule NewSolver_Inr(1)[OF s])
  have "fresh_population ?ms ?w0"
    unfolding fresh_population_def
    by (auto simp: mh ts deref_def nth_append)
  then show ?thesis
    using nm s pop by (simp add: NEAT_NewSolver_def)
qed

lemma ComputeAndSetFitnessScore_fresh:
  assumes I: "fresh_population pop w" and p: "p \<in> set pop"
  shows "\<exists>w' net'. Network_ComputeAndSetFitnessScore lib conv p w = Inr w' \<and>
            deref w' p = Inr net' \<and> FitnessScore net' = conv None"
proof -
  obtain net where n: "deref w p = Inr net" "connections net = []" "nSimilar net = 0"
    using I p by (auto simp: fresh_population_def)
  have mh: "mutationHistory w = None" and ts: "testSet w = []"
    using I by (simp_all add: fresh_population_def)
  show ?thesis
    unfolding Network_ComputeAndSetFitnessScore_def
    by (simp add: mh ts n Let_def deref_store adjusted_fitness_def uint32_of_float64_def)
qed

lemma parent_kept_sort_once: "sorter_permutes pdqsort \<Longrightarrow> parent_kept n (sort_once pdqsort n)"
  by (simp add: parent_kept_def sort_once_facts mset_sort_once)

lemma getNewInnovationNumber_eq:
  "getNewInnovationNumber w = (innovationNoTracker w, w\<lparr>innovationNoTracker := innovationNoTracker w + 1\<rparr>)"
  by (simp add: getNewInnovationNumber_def Let_def)

lemma getNewInnovationNumber_increasing:
  assumes "getNewInnovationNumber w = (n, w')" and "innovationNoTracker w \<noteq> - 1"
  shows "n = innovationNoTracker w" and "n < innovationNoTracker w'"
    and "\<forall>m < innovationNoTracker w. m < n"
proof -
  show n: "n = innovationNoTracker w" using assms(1) by (simp add: getNewInnovationNumber_eq)
  have w': "innovationNoTracker w' = n + 1" using assms(1) by (auto simp: getNewInnovationNumber_eq)
  show "n < innovationNoTracker w'"
    unfolding w' using assms(2) n by (meson inc_less_eq_triv_imp verit_comp_simplify1(3))
  show "\<forall>m < innovationNoTracker w. m < n" using n by simp
qed

lemma IntN_frame:
  "IntN n w = Inr (k, w') \<Longrightarrow>
   heap w' = heap w \<and> innovationNoTracker w' = innovationNoTracker w \<and>
   mutationHistory w' = mutationHistory w \<and> testSet w' = testSet w \<and> k < n"
  by (auto simp: IntN_def split: if_splits list.splits)

lemma history_store_nil: "mutationHistory w = None \<Longrightarrow> history_store k m w = Inl AssignmentToEntryInNilMap"
  by (simp add: history_store_def)

lemma addConnection_fresh_nil:
  "mutationHistory w = None \<Longrightarrow> addConnection_fresh p net ep w = Inl AssignmentToEntryInNilMap"
  by (auto simp: addConnection_fresh_def randomWeight_def Float64_def getNewInnovationNumber_eq
      history_store_def Let_def store_def split: prod.splits list.splits option.splits)




lemma forward_cong:
  "nodes n' = nodes n \<Longrightarrow> endpoints c' = endpoints c \<Longrightarrow> forward n' c' = forward n c"
  by (simp add: forward_def)


lemma randomWeight_frame:
  "randomWeight w = (x, w') \<Longrightarrow>
   heap w' = heap w \<and> innovationNoTracker w' = innovationNoTracker w \<and>
   mutationHistory w' = mutationHistory w \<and> testSet w' = testSet w \<and> rand_ints w' = rand_ints w"
  by (auto simp: randomWeight_def Float64_def split: list.splits prod.splits)


lemma list_all_update: "list_all P xs \<Longrightarrow> P y \<Longrightarrow> list_all P (xs[a := y])"
  by (metis insert_iff list_all_iff set_update_subset_insert subsetD)



lemma NewNetwork_feed_forward:
  "list_all feed_forward (heap w) \<Longrightarrow> list_all feed_forward (heap (snd (NewNetwork nIn nOut w)))"
  by (simp add: NewNetwork_def feed_forward_def)

text \<open>
  The states a call leaves when it does not return keep the property as well: the
  connection \<^verbatim>\<open>addConnection\<close> has appended when it panics joins two nodes it has compared
  (in a network of at most \<open>2\<^sup>3\<^sup>2\<close> nodes, where \<^verbatim>\<open>uint32(senderNodeId)\<close> is the index
  drawn), and \<^verbatim>\<open>addNode\<close> has appended a node and no connection when it comes to the
  mutex.
\<close>

lemma addConnection_at_panic_keeps:
  assumes ff: "list_all feed_forward (heap w)"
    and small: "\<forall>net \<in> set (heap w). length (nodes net) \<le> 2 ^ 32"
    and st: "addConnection_at_panic p w = Some w'"
  shows "list_all feed_forward (heap w')"
proof -
  obtain net where n: "deref w p = Inr net"
    using st by (auto simp: addConnection_at_panic_def split: sum.splits)
  obtain a where a: "p = Some a" "a < length (heap w)" "heap w ! a = net"
    using n by (rule deref_InrE)
  obtain s w1 where i1: "IntN (length (nodes net)) w = Inr (s, w1)"
    using st n by (auto simp: addConnection_at_panic_def split: sum.splits)
  obtain r w2 where i2: "IntN (length (nodes net)) w1 = Inr (r, w2)"
    using st n i1 by (auto simp: addConnection_at_panic_def split: sum.splits)
  note f1 = IntN_frame[OF i1] and f2 = IntN_frame[OF i2]
  obtain x w3 where rw: "randomWeight w2 = (x, w3)" by (cases "randomWeight w2")
  note f3 = randomWeight_frame[OF rw]
  let ?c = "\<lparr>endpoints = \<lparr>senderId = of_nat s, receiverId = of_nat r\<rparr>, weight = x, enabled = True,
             innovationNo = innovationNoTracker w3\<rparr>"
  let ?net = "net\<lparr>connections := connections net @ [?c]\<rparr>"
  have lay: "layer (nodes net ! s) < layer (nodes net ! r)"
    using st n i1 i2 by (auto simp: addConnection_at_panic_def Let_def split: if_splits)
  have w': "w' = store p ?net (w3\<lparr>innovationNoTracker := innovationNoTracker w3 + 1\<rparr>)"
    using st n i1 i2 rw
    by (auto simp: addConnection_at_panic_def Let_def getNewInnovationNumber_eq split: if_splits)
  have nin: "net \<in> set (heap w)" using a by auto
  then have len: "length (nodes net) \<le> 2 ^ 32" using small by blast
  have s: "unat (of_nat s :: 32 word) = s" and r: "unat (of_nat r :: 32 word) = r"
    using f1 f2 len by (simp_all add: unat_of_nat)
  have fwd: "forward ?net ?c"
    using f1 f2 lay by (simp add: forward_def index_def s r)
  have old: "feed_forward net" using ff a by (auto simp: list_all_length)
  have fc: "forward ?net = forward net"
    by (rule ext) (simp add: forward_def)
  have "feed_forward ?net"
    using old fwd by (simp add: feed_forward_def fc)
  then show ?thesis
    using ff f1 f2 f3 a by (simp add: w' store_def list_all_update)
qed

lemma addNode_at_lock_keeps:
  assumes ff: "list_all feed_forward (heap w)" and st: "addNode_at_lock p w = Some w'"
  shows "list_all feed_forward (heap w')"
proof -
  obtain net where n: "deref w p = Inr net"
    using st by (auto simp: addNode_at_lock_def split: sum.splits)
  obtain a where a: "p = Some a" "a < length (heap w)" "heap w ! a = net"
    using n by (rule deref_InrE)
  obtain k w1 where i1: "IntN (length (connections net)) w = Inr (k, w1)"
    using st n by (auto simp: addNode_at_lock_def split: sum.splits)
  note f1 = IntN_frame[OF i1]
  obtain nd where w': "w' = store p (net\<lparr>nodes := nodes net @ [nd]\<rparr>) w1"
    using st n i1 by (auto simp: addNode_at_lock_def Let_def split: if_splits sum.splits)
  have old: "feed_forward net" using ff a by (auto simp: list_all_length)
  have "forward (net\<lparr>nodes := nodes net @ [nd]\<rparr>) c" if "forward net c" for c
    using that by (auto simp: forward_def index_def nth_append split: if_splits)
  then have "feed_forward (net\<lparr>nodes := nodes net @ [nd]\<rparr>)"
    using old by (simp add: feed_forward_def list_all_iff)
  then show ?thesis
    using ff f1 a by (simp add: w' store_def list_all_update)
qed

lemma addConnection_at_panic_panics:
  "addConnection_at_panic p w = Some w' \<Longrightarrow> addConnection p w = Inl AssignmentToEntryInNilMap"
  by (auto simp: addConnection_at_panic_def addConnection_def Let_def history_lookup_def
      addConnection_fresh_nil split: sum.splits if_splits prod.splits)



text \<open>
  The property rests on the \<^verbatim>\<open>nil\<close> map. With a map allocated for the mutation history,
  \<^verbatim>\<open>addNode\<close> returns, and it puts the new node on the layer after the sender's without
  looking at the receiver's: after \<^verbatim>\<open>NewNetwork(1, 1)\<close>, \<^verbatim>\<open>addConnection\<close> (0\<rightarrow>1) and
  \<^verbatim>\<open>addNode\<close> (splitting 0\<rightarrow>1 by node 2 on layer 1), a second \<^verbatim>\<open>addNode\<close> that splits 0\<rightarrow>2
  puts node 3 on layer 1 and adds the connection 3\<rightarrow>2 between two nodes of layer 1.
\<close>

lemma addNode_same_layer_with_map_allocated:
  "(case addConnection (Some 0) (snd (NewNetwork 1 1 (registry_allocated [] [0, 1, 0, 1]))) of
      Inl e \<Rightarrow> False
    | Inr w2 \<Rightarrow>
   (case addNode (Some 0) w2 of
      Inl e \<Rightarrow> False
    | Inr w3 \<Rightarrow>
        feed_forward (heap w3 ! 0) \<and>
        (case addNode (Some 0) w3 of
           Inl e \<Rightarrow> False
         | Inr w4 \<Rightarrow>
             \<not> feed_forward (heap w4 ! 0) \<and>
             map (\<lambda>c. (senderId (endpoints c), receiverId (endpoints c)))
               (connections (heap w4 ! 0)) = [(0, 1), (0, 2), (2, 1), (0, 3), (3, 2)] \<and>
             map layer (nodes (heap w4 ! 0)) = [0, 20, 1, 1])))"
  by code_simp


text \<open>
  Claim C7 as stated fails: \<^verbatim>\<open>Crossover\<close> sorts the connections of both parents in place
  and sets their flags. A freshly constructed network crossed with itself has its flag
  set by the call, and \<open>unsorted_parent\<close> has its connections reordered.
\<close>

theorem Crossover_changes_parent:
  "\<forall>pdqsort.
   (case Network_Crossover pdqsort (Some 0) (Some 0) (snd (NewNetwork 1 1 (init_world [] []))) of
      Inl e \<Rightarrow> False
    | Inr (child, w) \<Rightarrow>
        \<not> sorted_flag (heap (snd (NewNetwork 1 1 (init_world [] []))) ! 0) \<and>
        sorted_flag (heap w ! 0)) \<and>
   (case Network_Crossover pdqsort (Some 0) (Some 0) ((init_world [] [])\<lparr>heap := [unsorted_parent]\<rparr>) of
      Inl e \<Rightarrow> False
    | Inr (child, w) \<Rightarrow>
        map innovationNo (connections unsorted_parent) = [5, 3] \<and>
        map innovationNo (connections (heap w ! 0)) = [3, 5])"
proof (intro allI)
  fix pdqsort :: "connection sorter"
  show "(case Network_Crossover pdqsort (Some 0) (Some 0) (snd (NewNetwork 1 1 (init_world [] []))) of
      Inl e \<Rightarrow> False
    | Inr (child, w) \<Rightarrow>
        \<not> sorted_flag (heap (snd (NewNetwork 1 1 (init_world [] []))) ! 0) \<and>
        sorted_flag (heap w ! 0)) \<and>
   (case Network_Crossover pdqsort (Some 0) (Some 0) ((init_world [] [])\<lparr>heap := [unsorted_parent]\<rparr>) of
      Inl e \<Rightarrow> False
    | Inr (child, w) \<Rightarrow>
        map innovationNo (connections unsorted_parent) = [5, 3] \<and>
        map innovationNo (connections (heap w ! 0)) = [3, 5])"
    by code_simp
qed

text \<open>
  Claim C7, amended. For two parents \<open>p\<close> and \<open>q\<close> (which may be one network),
  \<^verbatim>\<open>Crossover\<close> returns a pointer that was not allocated before the call and differs from
  both parents. Of each parent it keeps the nodes, the fitness score, the survival chance,
  the input and output counts, \<open>nSimilar\<close>, and the connections up to their order; it sets
  the parent's flag; a parent whose flag was set is unchanged. Every other network and
  the package variables are unchanged. (Of the library's sort of a slice of more than
  twelve elements the proof uses only that it permutes the slice.)
\<close>

theorem Crossover_keeps_parents_up_to_order:
  assumes "sorter_permutes pdqsort" and "deref w p = Inr net" and "deref w q = Inr other"
  shows "\<exists>w'. Network_Crossover pdqsort p q w = Inr (Some (length (heap w)), w') \<and>
           deref w (Some (length (heap w))) = Inl NilPointerDereference \<and>
           Some (length (heap w)) \<noteq> p \<and> Some (length (heap w)) \<noteq> q \<and>
           (\<exists>child. deref w' (Some (length (heap w))) = Inr child) \<and>
           (\<exists>net'. deref w' p = Inr net' \<and> parent_kept net net') \<and>
           (\<exists>other'. deref w' q = Inr other' \<and> parent_kept other other') \<and>
           (\<forall>x. x \<noteq> p \<and> x \<noteq> q \<and> x \<noteq> Some (length (heap w)) \<longrightarrow> deref w' x = deref w x) \<and>
           innovationNoTracker w' = innovationNoTracker w \<and>
           mutationHistory w' = mutationHistory w \<and> testSet w' = testSet w"
proof -
  obtain a where a: "p = Some a" "a < length (heap w)"
    using assms(2) by (rule deref_InrE)
  obtain b where b: "q = Some b" "b < length (heap w)"
    using assms(3) by (rule deref_InrE)
  have new: "deref w (Some (length (heap w))) = Inl NilPointerDereference"
    by (simp add: deref_def)
  have ne: "Some (length (heap w)) \<noteq> p" "Some (length (heap w)) \<noteq> q"
    using a b by auto
  from Crossover_effect[OF assms(2,3), of pdqsort] new ne
    parent_kept_sort_once[OF assms(1), of net] parent_kept_sort_once[OF assms(1), of other]
  show ?thesis by blast
qed

theorem Crossover_keeps_parents_up_to_order_witness:
  "sorter_permutes (insertionSort :: connection sorter) \<and>
   deref ((init_world [] [])\<lparr>heap := [unsorted_parent]\<rparr>) (Some 0) = Inr unsorted_parent \<and>
   (\<exists>w'. Network_Crossover insertionSort (Some 0) (Some 0)
            ((init_world [] [])\<lparr>heap := [unsorted_parent]\<rparr>) = Inr (Some 1, w') \<and>
          (\<exists>net'. deref w' (Some 0) = Inr net' \<and> parent_kept unsorted_parent net'))"
proof -
  have s: "sorter_permutes (insertionSort :: connection sorter)"
    by (simp add: sorter_permutes_def mset_insertionSort)
  have d: "deref ((init_world [] [])\<lparr>heap := [unsorted_parent]\<rparr>) (Some 0) = Inr unsorted_parent"
    by (simp add: deref_def)
  from Crossover_keeps_parents_up_to_order[OF s d d] s d show ?thesis
    by auto
qed

text \<open>
  Claim C8, in a run. A program starts with \<open>mutationHistory\<close> a \<^verbatim>\<open>nil\<close> map, and no
  statement of the package allocates one. The first \<^verbatim>\<open>addConnection\<close> that finds two nodes
  to connect takes the branch that creates a connection and panics on
  \<^verbatim>\<open>mutationHistory[newEndpoints] = ...\<close>: nothing is ever recorded for a second genome
  (\<open>addConnection_nil_registry\<close>, \<open>addNode_nil_registry\<close>: with the \<^verbatim>\<open>nil\<close> map, a call
  that returns has changed no network and allocated no number).
  With a map allocated, three networks \<open>two_out\<close> and the splits of 0\<rightarrow>1 by the first, of
  0\<rightarrow>2 by the second and of 0\<rightarrow>1 by the third: the second finds only one of its two keys
  and overwrites the record of 0\<rightarrow>3, so the third, which splits the connection the first
  did, receives the innovation numbers 4 and 3 where the first received 2 and 3.
\<close>

theorem registry_never_records:
  "mutationHistory (init_world [] [0, 1]) = None \<and>
   addConnection (Some 0) (snd (NewNetwork 1 1 (init_world [] [0, 1]))) =
     Inl AssignmentToEntryInNilMap \<and>
   (case addNode (Some 0)
           \<lparr>heap = [two_out, two_out, two_out], innovationNoTracker = 2,
            mutationHistory = Some Map.empty, testSet = [], rand_floats = [],
            rand_ints = [0, 1, 0]\<rparr> of
      Inl e \<Rightarrow> False
    | Inr w1 \<Rightarrow>
   (case addNode (Some 1) w1 of
      Inl e \<Rightarrow> False
    | Inr w2 \<Rightarrow>
   (case addNode (Some 2) w2 of
      Inl e \<Rightarrow> False
    | Inr w3 \<Rightarrow>
        map endpoints (drop 2 (connections (heap w3 ! 0))) =
          map endpoints (drop 2 (connections (heap w3 ! 2))) \<and>
        map innovationNo (drop 2 (connections (heap w3 ! 0))) = [2, 3] \<and>
        map innovationNo (drop 2 (connections (heap w3 ! 1))) = [4, 5] \<and>
        map innovationNo (drop 2 (connections (heap w3 ! 2))) = [4, 3])))"
proof (intro conjI)
  show "mutationHistory (init_world [] [0, 1]) = None"
    by (simp add: init_world_def)
  have "(case addConnection (Some 0) (snd (NewNetwork 1 1 (init_world [] [0, 1]))) of
          Inl e \<Rightarrow> e = AssignmentToEntryInNilMap | Inr w \<Rightarrow> False)"
    by code_simp
  then show "addConnection (Some 0) (snd (NewNetwork 1 1 (init_world [] [0, 1]))) =
     Inl AssignmentToEntryInNilMap"
    by (cases "addConnection (Some 0) (snd (NewNetwork 1 1 (init_world [] [0, 1])))") simp_all
  show "(case addNode (Some 0)
           \<lparr>heap = [two_out, two_out, two_out], innovationNoTracker = 2,
            mutationHistory = Some Map.empty, testSet = [], rand_floats = [],
            rand_ints = [0, 1, 0]\<rparr> of
      Inl e \<Rightarrow> False
    | Inr w1 \<Rightarrow>
   (case addNode (Some 1) w1 of
      Inl e \<Rightarrow> False
    | Inr w2 \<Rightarrow>
   (case addNode (Some 2) w2 of
      Inl e \<Rightarrow> False
    | Inr w3 \<Rightarrow>
        map endpoints (drop 2 (connections (heap w3 ! 0))) =
          map endpoints (drop 2 (connections (heap w3 ! 2))) \<and>
        map innovationNo (drop 2 (connections (heap w3 ! 0))) = [2, 3] \<and>
        map innovationNo (drop 2 (connections (heap w3 ! 1))) = [4, 5] \<and>
        map innovationNo (drop 2 (connections (heap w3 ! 2))) = [4, 3])))"
    by code_simp
qed

text \<open>
  Claim C10. The distance of two networks without connections, which may be one
  network, is exactly 1: \<open>N\<close> is raised to 1 and the one position compared counts as
  excess. 1 is not below the threshold 0.3, and \<open>nSimilar\<close> of the receiver is what it
  was. For the population \<^verbatim>\<open>neat.NewSolver\<close> builds in a program that starts, the distance
  phase of the first generation returns with \<open>nSimilar = 0\<close> for every member, so the
  quotient of the adjusted fitness has a zero divisor for each of them (\<open>None\<close>), and
  \<^verbatim>\<open>ComputeAndSetFitnessScore\<close> stores the conversion of that non-finite value.
\<close>

theorem Distance_fresh_is_one_and_fitness_divides_by_zero:
  "(\<forall>w p q net other.
      deref w p = Inr net \<and> deref w q = Inr other \<and>
      connections net = [] \<and> connections other = [] \<longrightarrow>
      (\<exists>w'. Network_Distance pdqsort p q w = Inr (1, w') \<and>
            (\<exists>net'. deref w' p = Inr net' \<and> nSimilar net' = nSimilar net))) \<and>
   \<not> (1 :: float64) < 3 / 10 \<and>
   (PopulationSize opts \<noteq> 0 \<longrightarrow>
      (\<exists>solver w0 batches w1.
         NEAT_NewSolver nIn nOut opts (init_world fs ks) = Inr (solver, w0) \<and>
         length (population solver) = unat (PopulationSize opts) \<and>
         BuildBatchesList (PopulationSize (options solver)) (NBatches (options solver)) = Inr batches \<and>
         distance_phase (Network_Member lib conv pdqsort) batches (population solver) w0 = Inr w1 \<and>
         (\<forall>p \<in> set (population solver).
            \<exists>net. deref w1 p = Inr net \<and> nSimilar net = 0 \<and>
              (\<forall>fitness. adjusted_fitness fitness (nSimilar net) = None) \<and>
              (\<exists>w2 net2. Network_ComputeAndSetFitnessScore lib conv p w1 = Inr w2 \<and>
                 deref w2 p = Inr net2 \<and> FitnessScore net2 = conv None))))"
proof (intro conjI allI impI)
  fix w p q net other
  assume h: "deref w p = Inr net \<and> deref w q = Inr other \<and>
      connections net = [] \<and> connections other = []"
  then have p: "deref w p = Inr net" and q: "deref w q = Inr other"
    and cn: "connections net = []" and co: "connections other = []" by simp_all
  have "deref (sort_connections pdqsort q (sort_connections pdqsort p w)) p = Inr (sort_once pdqsort net)"
    by (rule deref_sort2(1)[OF p q])
  moreover have "nSimilar (sort_once pdqsort net) = nSimilar net" by (simp add: sort_once_facts)
  ultimately show "\<exists>w'. Network_Distance pdqsort p q w = Inr (1, w') \<and>
            (\<exists>net'. deref w' p = Inr net' \<and> nSimilar net' = nSimilar net)"
    using Distance_no_connections[OF p q cn co] by blast
next
  show "\<not> (1 :: float64) < 3 / 10" by simp
next
  assume nz: "PopulationSize opts \<noteq> 0"
  have mh: "mutationHistory (init_world fs ks) = None" and ts: "testSet (init_world fs ks) = []"
    by (simp_all add: init_world_def)
  obtain solver w0 where s: "NEAT_NewSolver nIn nOut opts (init_world fs ks) = Inr (solver, w0)"
    and new: "NewSolver (population solver) (opts\<lparr>Speciation := True\<rparr>) = Inr solver"
    and len: "length (population solver) = unat (PopulationSize opts)"
    and I0: "fresh_population (population solver) w0"
    using NEAT_NewSolver_fresh[OF nz mh ts, of nIn nOut] by blast
  have ok: "solver_ok solver" by (rule NewSolver_solver_ok[OF new])
  then have pnz: "PopulationSize (options solver) \<noteq> 0"
    and ple: "unat (PopulationSize (options solver)) \<le> length (population solver)"
    by (simp_all add: solver_ok_def)
  obtain batches where b: "BuildBatchesList (PopulationSize (options solver)) (NBatches (options solver)) = Inr batches"
    and bw: "batches_within batches (unat (PopulationSize (options solver)))"
    using BuildBatchesList_within[OF pnz NewSolver_Inr(7)[OF new]] by blast
  have bwl: "batches_within batches (length (population solver))"
    by (rule batches_within_mono[OF bw ple])
  obtain w1 where d: "distance_phase (Network_Member lib conv pdqsort) batches (population solver) w0 = Inr w1"
    and I1: "fresh_population (population solver) w1"
    using distance_phase_fresh_population[OF I0 bwl, of lib conv] by blast
  have each: "\<exists>net. deref w1 p = Inr net \<and> nSimilar net = 0 \<and>
              (\<forall>fitness. adjusted_fitness fitness (nSimilar net) = None) \<and>
              (\<exists>w2 net2. Network_ComputeAndSetFitnessScore lib conv p w1 = Inr w2 \<and>
                 deref w2 p = Inr net2 \<and> FitnessScore net2 = conv None)"
    if pm: "p \<in> set (population solver)" for p
  proof -
    obtain net where n: "deref w1 p = Inr net" "nSimilar net = 0"
      using I1 pm by (auto simp: fresh_population_def)
    have "adjusted_fitness fitness (nSimilar net) = None" for fitness
      by (simp add: adjusted_fitness_def n)
    then show ?thesis
      using n ComputeAndSetFitnessScore_fresh[OF I1 pm, of lib conv] by blast
  qed
  show "\<exists>solver w0 batches w1.
         NEAT_NewSolver nIn nOut opts (init_world fs ks) = Inr (solver, w0) \<and>
         length (population solver) = unat (PopulationSize opts) \<and>
         BuildBatchesList (PopulationSize (options solver)) (NBatches (options solver)) = Inr batches \<and>
         distance_phase (Network_Member lib conv pdqsort) batches (population solver) w0 = Inr w1 \<and>
         (\<forall>p \<in> set (population solver).
            \<exists>net. deref w1 p = Inr net \<and> nSimilar net = 0 \<and>
              (\<forall>fitness. adjusted_fitness fitness (nSimilar net) = None) \<and>
              (\<exists>w2 net2. Network_ComputeAndSetFitnessScore lib conv p w1 = Inr w2 \<and>
                 deref w2 p = Inr net2 \<and> FitnessScore net2 = conv None))"
    using s len b d each by blast
qed

theorem Distance_fresh_is_one_and_fitness_divides_by_zero_witness:
  "deref (snd (NewNetwork 1 1 (init_world [] []))) (Some 0) =
     Inr \<lparr>FitnessScore = 0, SurvivalChance = 0, nodes = new_nodes 1 1, connections = [],
          nInputs = 1, nOutputs = 1, nSimilar = 0, sorted_flag = False\<rparr> \<and>
   (\<exists>w'. Network_Distance insertionSort (Some 0) (Some 0) (snd (NewNetwork 1 1 (init_world [] []))) =
          Inr (1, w')) \<and>
   PopulationSize \<lparr>PopulationSize = 2, MaxGenerations = 1, MutationChance = 0, NBatches = 1,
                   Speciation = False, Verbose = False\<rparr> \<noteq> 0 \<and>
   (\<exists>solver w0. NEAT_NewSolver 1 1
        \<lparr>PopulationSize = 2, MaxGenerations = 1, MutationChance = 0, NBatches = 1,
         Speciation = False, Verbose = False\<rparr> (init_world [] []) = Inr (solver, w0) \<and>
      length (population solver) = 2)"
proof -
  let ?w = "snd (NewNetwork 1 1 (init_world [] []))"
  let ?n = "\<lparr>FitnessScore = 0, SurvivalChance = 0, nodes = new_nodes 1 1, connections = [],
          nInputs = 1, nOutputs = 1, nSimilar = 0, sorted_flag = False\<rparr>"
  let ?opts = "\<lparr>PopulationSize = 2, MaxGenerations = 1, MutationChance = 0, NBatches = 1,
                   Speciation = False, Verbose = False\<rparr>"
  note inst = Distance_fresh_is_one_and_fitness_divides_by_zero
    [where opts = ?opts and nIn = 1 and nOut = 1 and fs = "[]" and ks = "[]"
       and lib = "\<lparr>Tanh = (\<lambda>x. x), Exp = (\<lambda>x. x)\<rparr>" and conv = "\<lambda>x. 0"
       and pdqsort = insertionSort]
  have d: "deref ?w (Some 0) = Inr ?n"
    by (simp add: deref_def NewNetwork_def init_world_def)
  have c: "connections ?n = []" by simp
  have "\<exists>w'. Network_Distance insertionSort (Some 0) (Some 0) ?w = Inr (1, w')"
    using inst d c by blast
  moreover have nz: "PopulationSize ?opts \<noteq> 0" by simp
  moreover have "\<exists>solver w0. NEAT_NewSolver 1 1 ?opts (init_world [] []) = Inr (solver, w0) \<and>
      length (population solver) = 2"
    using inst nz by auto
  ultimately show ?thesis using d by blast
qed

end
